theory Spec2Isabelle
  imports Main "HOL-Library.AList" "HOL-Library.Multiset"
begin

section \<open>JavaScript values\<close>

text \<open>
  The records of the application are plain JavaScript objects: the store operations of
  \<^verbatim>\<open>utils/database.js\<close> take whatever object the caller passes, spread it
  (\<^verbatim>\<open>{...data, createdAt: now}\<close>) and hand it to the Dexie table. A record is
  therefore modelled as an association list from property names to values, in property
  order.

  The values are those such records hold: \<open>Num n\<close> is the number with the integer value
  \<open>n\<close> (counters, ids, millisecond timestamps), \<open>NaN\<close> is the not-a-number value,
  and a string is a list of code units below 256. Numbers with a fractional part, the
  infinities, \<^verbatim>\<open>Date\<close> objects and binary data are not values of this type. JavaScript
  numbers are IEEE doubles: the integers of magnitude up to \<open>2\<^sup>5\<^sup>3\<close> are all numbers, and
  arithmetic rounds to the nearest double.
\<close>

datatype jsval =
    Undefined
  | Null
  | Bool bool
  | Num int
  | NaN
  | Str string
  | Arr "jsval list"
  | Obj "(string \<times> jsval) list"

type_synonym obj = "(string \<times> jsval) list"

text \<open>Property read \<^verbatim>\<open>ob.k\<close>: a missing property reads as \<^verbatim>\<open>undefined\<close>.\<close>

definition fld :: "obj \<Rightarrow> string \<Rightarrow> jsval" where
  "fld ob k = (case map_of ob k of None \<Rightarrow> Undefined | Some v \<Rightarrow> v)"

text \<open>Truthiness, as used by \<^verbatim>\<open>||\<close>, \<^verbatim>\<open>&&\<close> and \<^verbatim>\<open>!\<close>.\<close>

definition truthy :: "jsval \<Rightarrow> bool" where
  "truthy v = (case v of Undefined \<Rightarrow> False | Null \<Rightarrow> False | Bool b \<Rightarrow> b
     | Num n \<Rightarrow> n \<noteq> 0 | NaN \<Rightarrow> False | Str s \<Rightarrow> s \<noteq> [] | Arr _ \<Rightarrow> True
     | Obj _ \<Rightarrow> True)"

definition digit :: "nat \<Rightarrow> char" where
  "digit d = ''0123456789'' ! d"

fun show_nat :: "nat \<Rightarrow> string" where
  "show_nat n = (if n < 10 then [digit n] else show_nat (n div 10) @ [digit (n mod 10)])"

declare show_nat.simps [simp del]

definition show_int :: "int \<Rightarrow> string" where
  "show_int i = (if i < 0 then CHR ''-'' # show_nat (nat (- i)) else show_nat (nat i))"

fun join :: "string \<Rightarrow> string list \<Rightarrow> string" where
  "join sep [] = []"
| "join sep [s] = s"
| "join sep (s # t # ts) = s @ sep @ join sep (t # ts)"

text \<open>
  String conversion, as performed by template literals and by \<^verbatim>\<open>+\<close> on a string. A
  number is written in decimal, which is what JavaScript does below \<open>10\<^sup>2\<^sup>1\<close>; from there
  on JavaScript switches to exponent notation, which is not modelled.
\<close>

fun js_to_string :: "jsval \<Rightarrow> string" where
  "js_to_string Undefined = ''undefined''"
| "js_to_string Null = ''null''"
| "js_to_string (Bool b) = (if b then ''true'' else ''false'')"
| "js_to_string (Num n) = show_int n"
| "js_to_string NaN = ''NaN''"
| "js_to_string (Str s) = s"
| "js_to_string (Arr xs) =
     join '','' (map (\<lambda>x. if x = Undefined \<or> x = Null then [] else js_to_string x) xs)"
| "js_to_string (Obj _) = ''[object Object]''"

text \<open>
  Rounding an integer to the nearest double, ties to the even significand. Up to
  magnitude \<open>2\<^sup>5\<^sup>3\<close> every integer is a double; above, the doubles are the multiples of
  a power of two that leaves 53 significant bits. (Overflow to infinity, beyond
  \<open>2\<^sup>1\<^sup>0\<^sup>2\<^sup>4\<close>, is not modelled.)
\<close>

fun bitlen :: "nat \<Rightarrow> nat" where
  "bitlen n = (if n = 0 then 0 else Suc (bitlen (n div 2)))"

declare bitlen.simps [simp del]

definition round_to_double :: "int \<Rightarrow> int" where
  "round_to_double m =
     (if \<bar>m\<bar> \<le> 2 ^ 53 then m
      else
        (let u = 2 ^ (bitlen (nat \<bar>m\<bar>) - 53);
             q = m div u;
             r = m - q * u
         in if 2 * r < u then q * u
            else if u < 2 * r then (q + 1) * u
            else if even q then q * u else (q + 1) * u))"

text \<open>
  The counter expression \<^verbatim>\<open>(v || 0) + 1\<close> of the usage-count operations. A falsy
  \<open>v\<close> (also \<open>0\<close> and \<open>NaN\<close>) is replaced by \<open>0\<close>; a number is incremented in double
  arithmetic; on a truthy non-number \<^verbatim>\<open>+\<close> converts: \<^verbatim>\<open>true + 1\<close> is \<open>2\<close>, and a
  string, array or object is concatenated with \<^verbatim>\<open>"1"\<close>.
\<close>

definition incr_count :: "jsval \<Rightarrow> jsval" where
  "incr_count v =
     (if \<not> truthy v then Num 1
      else case v of
          Num n \<Rightarrow> Num (round_to_double (n + 1))
        | Bool b \<Rightarrow> Num 2
        | _ \<Rightarrow> Str (js_to_string v @ ''1''))"

section \<open>IndexedDB keys\<close>

text \<open>
  Primary keys and index keys are IndexedDB keys. Of the values modelled here the valid
  keys are the numbers other than \<open>NaN\<close>, the strings and the arrays of valid keys,
  ordered with every number before every string before every array, strings by code unit
  and arrays element by element. (IndexedDB also takes dates and binary data as keys, which
  are not among the values here.) \<^verbatim>\<open>undefined\<close>, \<^verbatim>\<open>null\<close>, \<open>NaN\<close>, a boolean and an
  object are not valid keys.
\<close>

datatype ikey = KNum int | KStr string | KArr "ikey list"

fun to_key :: "jsval \<Rightarrow> ikey option" where
  "to_key (Num n) = Some (KNum n)"
| "to_key (Str s) = Some (KStr s)"
| "to_key (Arr xs) = map_option KArr (those (map to_key xs))"
| "to_key _ = None"

fun of_key :: "ikey \<Rightarrow> jsval" where
  "of_key (KNum n) = Num n"
| "of_key (KStr s) = Str s"
| "of_key (KArr ks) = Arr (map of_key ks)"

fun lex_lt :: "('a \<Rightarrow> 'a \<Rightarrow> bool) \<Rightarrow> 'a list \<Rightarrow> 'a list \<Rightarrow> bool" where
  "lex_lt lt [] [] = False"
| "lex_lt lt [] (y # ys) = True"
| "lex_lt lt (x # xs) [] = False"
| "lex_lt lt (x # xs) (y # ys) = (lt x y \<or> (x = y \<and> lex_lt lt xs ys))"

definition char_lt :: "char \<Rightarrow> char \<Rightarrow> bool" where
  "char_lt a b = ((of_char a :: nat) < of_char b)"

fun key_lt :: "ikey \<Rightarrow> ikey \<Rightarrow> bool" and keys_lt :: "ikey list \<Rightarrow> ikey list \<Rightarrow> bool" where
  "key_lt (KNum a) (KNum b) = (a < b)"
| "key_lt (KNum a) (KStr b) = True"
| "key_lt (KNum a) (KArr b) = True"
| "key_lt (KStr a) (KNum b) = False"
| "key_lt (KStr a) (KStr b) = lex_lt char_lt a b"
| "key_lt (KStr a) (KArr b) = True"
| "key_lt (KArr a) (KNum b) = False"
| "key_lt (KArr a) (KStr b) = False"
| "key_lt (KArr a) (KArr b) = keys_lt a b"
| "keys_lt [] [] = False"
| "keys_lt [] (y # ys) = True"
| "keys_lt (x # xs) [] = False"
| "keys_lt (x # xs) (y # ys) = (key_lt x y \<or> (x = y \<and> keys_lt xs ys))"

section \<open>Dexie tables\<close>

text \<open>
  \<^verbatim>\<open>db.version(1).stores({...})\<close> declares six tables, each with the auto-incremented
  in-line primary key \<^verbatim>\<open>++id\<close>. A table holds its records in primary-key order together
  with the current number of its key generator. The generator starts at 1, only grows,
  and is not reset when the table is cleared. Once its number has passed \<open>2\<^sup>5\<^sup>3\<close> it is
  exhausted: it generates no further key.
\<close>

definition generator_limit :: int where
  "generator_limit = 2 ^ 53"

text \<open>
  The errors the operations reject with, by class: the built-in \<^verbatim>\<open>TypeError\<close>, the
  errors of IndexedDB and Dexie, and \<open>Error msg\<close> for \<^verbatim>\<open>new Error(msg)\<close>, an error of
  the base class with its message. The code defines no error class of its own.
\<close>

datatype error =
    TypeError
  | DataError
  | ConstraintError
  | BulkError
  | StorageError
  | Error string

record table =
  rows :: "(ikey \<times> obj) list"
  nextKey :: int

definition empty_table :: table where
  "empty_table = \<lparr>rows = [], nextKey = 1\<rparr>"

fun insert_row :: "ikey \<Rightarrow> obj \<Rightarrow> (ikey \<times> obj) list \<Rightarrow> (ikey \<times> obj) list" where
  "insert_row k ob [] = [(k, ob)]"
| "insert_row k ob (r # rs) =
     (if key_lt k (fst r) then (k, ob) # r # rs else r # insert_row k ob rs)"

text \<open>\<^verbatim>\<open>table.get(id)\<close>: the record, or \<^verbatim>\<open>undefined\<close> (here \<open>None\<close>) when the key is absent.\<close>

definition tbl_get :: "table \<Rightarrow> ikey \<Rightarrow> obj option" where
  "tbl_get t k = map_of (rows t) k"

text \<open>
  An explicit numeric key at or above the generator's number moves the generator past it,
  but never further than one past the limit.
\<close>

definition bump :: "ikey \<Rightarrow> int \<Rightarrow> int" where
  "bump k g =
     (case k of
        KNum n \<Rightarrow> (let v = min n generator_limit in if g \<le> v then v + 1 else g)
      | _ \<Rightarrow> g)"

text \<open>
  \<^verbatim>\<open>table.add(ob)\<close>: with no \<^verbatim>\<open>id\<close> the generator supplies the key, which is written
  into the stored record, and the add fails with a ConstraintError when the generator is
  exhausted; an \<^verbatim>\<open>id\<close> that is present must be a valid key (else DataError). A key
  already in the table is a ConstraintError.
\<close>

definition tbl_add :: "table \<Rightarrow> obj \<Rightarrow> error + (ikey \<times> table)" where
  "tbl_add t ob =
     (if fld ob ''id'' = Undefined then
        (if generator_limit < nextKey t then Inl ConstraintError
         else
           (let k = KNum (nextKey t);
                ob' = AList.update ''id'' (Num (nextKey t)) (AList.delete ''id'' ob)
            in if map_of (rows t) k \<noteq> None then Inl ConstraintError
               else Inr (k, \<lparr>rows = insert_row k ob' (rows t), nextKey = nextKey t + 1\<rparr>)))
      else
        (case to_key (fld ob ''id'') of
           None \<Rightarrow> Inl DataError
         | Some k \<Rightarrow>
             if map_of (rows t) k \<noteq> None then Inl ConstraintError
             else Inr (k, \<lparr>rows = insert_row k ob (rows t), nextKey = bump k (nextKey t)\<rparr>)))"

text \<open>
  \<^verbatim>\<open>table.bulkAdd(obs)\<close> inside the import transaction: any rejected record makes the
  call fail with a BulkError, and the caller's transaction is rolled back.
\<close>

fun bulkAdd :: "table \<Rightarrow> obj list \<Rightarrow> error + table" where
  "bulkAdd t [] = Inr t"
| "bulkAdd t (ob # obs) =
     (case tbl_add t ob of Inl e \<Rightarrow> Inl BulkError | Inr (k, t') \<Rightarrow> bulkAdd t' obs)"

text \<open>
  \<^verbatim>\<open>table.update(id, changes)\<close>: every entry of \<open>changes\<close> is written into the record
  (a value \<^verbatim>\<open>undefined\<close> deletes the property). The names in \<open>changes\<close> are taken as
  plain property names; Dexie reads a name with a dot as a path into a nested object,
  which is not modelled. A missing key changes nothing and raises nothing. When the patch
  changes the in-line primary key, the record is removed under its old key and added
  under the new one.
\<close>

definition apply_patch :: "obj \<Rightarrow> obj \<Rightarrow> obj" where
  "apply_patch patch ob =
     fold (\<lambda>(k, v) acc. if v = Undefined then AList.delete k acc else AList.update k v acc) patch ob"

definition replace_row :: "ikey \<Rightarrow> obj \<Rightarrow> (ikey \<times> obj) list \<Rightarrow> (ikey \<times> obj) list" where
  "replace_row k ob rs = map (\<lambda>r. if fst r = k then (k, ob) else r) rs"

definition tbl_delete :: "table \<Rightarrow> ikey \<Rightarrow> table" where
  "tbl_delete t k = t\<lparr>rows := filter (\<lambda>r. fst r \<noteq> k) (rows t)\<rparr>"

definition tbl_update :: "table \<Rightarrow> ikey \<Rightarrow> obj \<Rightarrow> error + table" where
  "tbl_update t k patch =
     (case map_of (rows t) k of
        None \<Rightarrow> Inr t
      | Some ob \<Rightarrow>
          (let ob' = apply_patch patch ob in
           if fld ob' ''id'' = fld ob ''id'' then Inr (t\<lparr>rows := replace_row k ob' (rows t)\<rparr>)
           else (case tbl_add (tbl_delete t k) ob' of
                   Inl e \<Rightarrow> Inl e
                 | Inr (k', t') \<Rightarrow> Inr t')))"

definition tbl_clear :: "table \<Rightarrow> table" where
  "tbl_clear t = t\<lparr>rows := []\<rparr>"

text \<open>\<^verbatim>\<open>table.toArray()\<close>: all records, in primary-key order.\<close>

definition tbl_toArray :: "table \<Rightarrow> obj list" where
  "tbl_toArray t = map snd (rows t)"

text \<open>
  \<^verbatim>\<open>table.orderBy(f)\<close> walks the secondary index on property \<open>f\<close>. IndexedDB puts a record
  into an index only when the indexed property holds a valid key; the entries are ordered
  by index key and, among equal index keys, by primary key.
  \<^verbatim>\<open>.reverse().toArray()\<close> returns the records of the entries from last to first.
\<close>

type_synonym index_entry = "ikey \<times> ikey \<times> obj"

definition entry_lt :: "index_entry \<Rightarrow> index_entry \<Rightarrow> bool" where
  "entry_lt a b = (key_lt (fst a) (fst b) \<or> (fst a = fst b \<and> key_lt (fst (snd a)) (fst (snd b))))"

fun ins_by :: "('a \<Rightarrow> 'a \<Rightarrow> bool) \<Rightarrow> 'a \<Rightarrow> 'a list \<Rightarrow> 'a list" where
  "ins_by lt x [] = [x]"
| "ins_by lt x (y # ys) = (if lt y x then y # ins_by lt x ys else x # y # ys)"

fun isort_by :: "('a \<Rightarrow> 'a \<Rightarrow> bool) \<Rightarrow> 'a list \<Rightarrow> 'a list" where
  "isort_by lt [] = []"
| "isort_by lt (x # xs) = ins_by lt x (isort_by lt xs)"

fun indexable :: "string \<Rightarrow> (ikey \<times> obj) list \<Rightarrow> index_entry list" where
  "indexable f [] = []"
| "indexable f (r # rs) =
     (case to_key (fld (snd r) f) of
        None \<Rightarrow> indexable f rs
      | Some ik \<Rightarrow> (ik, fst r, snd r) # indexable f rs)"

definition index_entries :: "string \<Rightarrow> table \<Rightarrow> index_entry list" where
  "index_entries f t = isort_by entry_lt (indexable f (rows t))"

definition tbl_orderBy_reverse :: "string \<Rightarrow> table \<Rightarrow> obj list" where
  "tbl_orderBy_reverse f t = rev (map (\<lambda>e. snd (snd e)) (index_entries f t))"

section \<open>The entity store\<close>

datatype coll = Emergencies | Foods | Contacts | Phrases | Orders | Activities

type_synonym store = "coll \<Rightarrow> table"

definition empty_store :: store where
  "empty_store = (\<lambda>c. empty_table)"

text \<open>
  Every operation is an \<^verbatim>\<open>async\<close> function whose \<^verbatim>\<open>catch\<close> logs and rethrows. Its
  model returns what the promise settles with (\<open>Inl\<close> a rejection, \<open>Inr\<close> the value)
  together with the store afterwards. The store operations read the clock once each; that
  reading, \<^verbatim>\<open>new Date().toISOString()\<close>, is the parameter \<open>now\<close>.
\<close>

type_synonym 'a outcome = "(error + 'a) \<times> store"

text \<open>\<^verbatim>\<open>const id = await db.c.add(rec); return { id, ...rec }\<close>\<close>

definition add_record :: "coll \<Rightarrow> obj \<Rightarrow> store \<Rightarrow> obj outcome" where
  "add_record c rec s =
     (case tbl_add (s c) rec of
        Inl e \<Rightarrow> (Inl e, s)
      | Inr (k, t') \<Rightarrow> (Inr ((''id'', of_key k) # AList.delete ''id'' rec), s(c := t')))"

text \<open>\<^verbatim>\<open>await db.c.update(id, patch); return await db.c.get(id)\<close>\<close>

definition update_record :: "coll \<Rightarrow> ikey \<Rightarrow> obj \<Rightarrow> store \<Rightarrow> obj option outcome" where
  "update_record c k patch s =
     (case tbl_update (s c) k patch of
        Inl e \<Rightarrow> (Inl e, s)
      | Inr t' \<Rightarrow> (Inr (tbl_get t' k), s(c := t')))"

text \<open>
  The read-modify-write operations first \<^verbatim>\<open>get\<close> the record and then read a property of
  the result; on \<^verbatim>\<open>undefined\<close> that property read throws a TypeError before anything
  is written.
\<close>

definition modify_record :: "coll \<Rightarrow> ikey \<Rightarrow> (obj \<Rightarrow> obj) \<Rightarrow> store \<Rightarrow> obj option outcome" where
  "modify_record c k patch_of s =
     (case tbl_get (s c) k of
        None \<Rightarrow> (Inl TypeError, s)
      | Some ob \<Rightarrow> update_record c k (patch_of ob) s)"

definition get_all :: "coll \<Rightarrow> string \<Rightarrow> store \<Rightarrow> obj list outcome" where
  "get_all c f s = (Inr (tbl_orderBy_reverse f (s c)), s)"

subsection \<open>Emergencies\<close>

definition addEmergency :: "string \<Rightarrow> obj \<Rightarrow> store \<Rightarrow> obj outcome" where
  "addEmergency now emergencyData =
     add_record Emergencies (AList.update ''createdAt'' (Str now) emergencyData)"

definition getAllEmergencies :: "store \<Rightarrow> obj list outcome" where
  "getAllEmergencies = get_all Emergencies ''createdAt''"

definition getEmergencyById :: "ikey \<Rightarrow> store \<Rightarrow> obj option outcome" where
  "getEmergencyById k s = (Inr (tbl_get (s Emergencies) k), s)"

definition updateEmergency :: "ikey \<Rightarrow> obj \<Rightarrow> store \<Rightarrow> obj option outcome" where
  "updateEmergency k emergencyData = update_record Emergencies k emergencyData"

definition deleteEmergency :: "ikey \<Rightarrow> store \<Rightarrow> bool outcome" where
  "deleteEmergency k s = (Inr True, s(Emergencies := tbl_delete (s Emergencies) k))"

subsection \<open>Foods\<close>

definition addFood :: "string \<Rightarrow> obj \<Rightarrow> store \<Rightarrow> obj outcome" where
  "addFood now foodData = add_record Foods (AList.update ''createdAt'' (Str now) foodData)"

definition getAllFoods :: "store \<Rightarrow> obj list outcome" where
  "getAllFoods = get_all Foods ''createdAt''"

definition updateFoodUsageCount :: "ikey \<Rightarrow> store \<Rightarrow> obj option outcome" where
  "updateFoodUsageCount k =
     modify_record Foods k (\<lambda>food. [(''usageCount'', incr_count (fld food ''usageCount''))])"

definition toggleFavorite :: "ikey \<Rightarrow> store \<Rightarrow> obj option outcome" where
  "toggleFavorite k =
     modify_record Foods k (\<lambda>food. [(''isFavorite'', Bool (\<not> truthy (fld food ''isFavorite'')))])"

subsection \<open>Contacts\<close>

definition addContact :: "string \<Rightarrow> obj \<Rightarrow> store \<Rightarrow> obj outcome" where
  "addContact now contactData =
     add_record Contacts
       (AList.update ''updatedAt'' (Str now) (AList.update ''createdAt'' (Str now) contactData))"

definition getAllContacts :: "store \<Rightarrow> obj list outcome" where
  "getAllContacts = get_all Contacts ''usageCount''"

definition updateContactUsageCount :: "string \<Rightarrow> ikey \<Rightarrow> store \<Rightarrow> obj option outcome" where
  "updateContactUsageCount now k =
     modify_record Contacts k
       (\<lambda>contact. [(''usageCount'', incr_count (fld contact ''usageCount'')),
                    (''updatedAt'', Str now)])"

subsection \<open>Phrases\<close>

definition addPhrase :: "string \<Rightarrow> obj \<Rightarrow> store \<Rightarrow> obj outcome" where
  "addPhrase now phraseData =
     add_record Phrases
       (AList.update ''updatedAt'' (Str now) (AList.update ''createdAt'' (Str now) phraseData))"

definition getAllPhrases :: "store \<Rightarrow> obj list outcome" where
  "getAllPhrases = get_all Phrases ''usageCount''"

definition updatePhraseUsageCount :: "string \<Rightarrow> ikey \<Rightarrow> store \<Rightarrow> obj option outcome" where
  "updatePhraseUsageCount now k =
     modify_record Phrases k
       (\<lambda>phrase. [(''usageCount'', incr_count (fld phrase ''usageCount'')),
                   (''updatedAt'', Str now)])"

subsection \<open>Orders\<close>

definition addOrder :: "string \<Rightarrow> obj \<Rightarrow> store \<Rightarrow> obj outcome" where
  "addOrder now orderData =
     add_record Orders
       (AList.update ''updatedAt'' (Str now) (AList.update ''createdAt'' (Str now) orderData))"

definition getAllOrders :: "store \<Rightarrow> obj list outcome" where
  "getAllOrders = get_all Orders ''orderDate''"

definition updateOrderStatus :: "string \<Rightarrow> ikey \<Rightarrow> jsval \<Rightarrow> store \<Rightarrow> obj option outcome" where
  "updateOrderStatus now k status =
     update_record Orders k [(''status'', status), (''updatedAt'', Str now)]"

subsection \<open>Activities\<close>

definition addActivity :: "string \<Rightarrow> obj \<Rightarrow> store \<Rightarrow> obj outcome" where
  "addActivity now activityData =
     add_record Activities (AList.update ''createdAt'' (Str now) activityData)"

definition getAllActivities :: "store \<Rightarrow> obj list outcome" where
  "getAllActivities = get_all Activities ''createdAt''"

definition updateActivityUsageCount :: "ikey \<Rightarrow> store \<Rightarrow> obj option outcome" where
  "updateActivityUsageCount k =
     modify_record Activities k
       (\<lambda>activity. [(''usageCount'', incr_count (fld activity ''usageCount''))])"

definition toggleActivityActive :: "ikey \<Rightarrow> store \<Rightarrow> obj option outcome" where
  "toggleActivityActive k =
     modify_record Activities k
       (\<lambda>activity. [(''isActive'', Bool (\<not> truthy (fld activity ''isActive'')))])"

text \<open>
  Descending order of two records on the property \<open>f\<close>: both hold a valid key there, and
  the first one's key is not smaller than the second one's.
\<close>

definition desc_by :: "string \<Rightarrow> obj \<Rightarrow> obj \<Rightarrow> bool" where
  "desc_by f a b =
     (case (to_key (fld a f), to_key (fld b f)) of
        (Some ka, Some kb) \<Rightarrow> \<not> key_lt ka kb
      | _ \<Rightarrow> False)"

definition has_key :: "string \<Rightarrow> obj \<Rightarrow> bool" where
  "has_key f ob = (to_key (fld ob f) \<noteq> None)"

subsection \<open>Validation helpers\<close>

definition CONTACT_RELATIONSHIPS :: "string list" where
  "CONTACT_RELATIONSHIPS = [''family'', ''friend'', ''recently_mentioned'', ''known_person'']"

definition CONTACT_GENDER :: "string list" where
  "CONTACT_GENDER = [''male'', ''female'']"

definition FOOD_CATEGORIES :: "string list" where
  "FOOD_CATEGORIES = [''breakfast'', ''lunch'', ''dinner'', ''snack'', ''drink'', ''dessert'']"

definition PHRASE_CATEGORIES :: "string list" where
  "PHRASE_CATEGORIES = [''common'', ''greeting'', ''emergency'', ''food'', ''health'',
     ''transport'', ''shopping'', ''specific'', ''nickname'', ''other'']"

definition ORDER_STATUS :: "string list" where
  "ORDER_STATUS = [''pending'', ''confirmed'', ''preparing'', ''ready'', ''delivered'', ''cancelled'']"

definition ACTIVITY_CATEGORIES :: "string list" where
  "ACTIVITY_CATEGORIES = [''health'', ''exercise'', ''entertainment'', ''personal_care'', ''other'']"

definition ACTIVITY_FREQUENCY :: "string list" where
  "ACTIVITY_FREQUENCY = [''daily'', ''weekly'', ''monthly'', ''custom'']"

text \<open>\<^verbatim>\<open>enumArray.includes(value)\<close>\<close>

definition validateEnum :: "jsval \<Rightarrow> string list \<Rightarrow> bool" where
  "validateEnum v enumArray = (v \<in> set (map Str enumArray))"

text \<open>
  \<^verbatim>\<open>String.prototype.trim\<close> strips white space and line terminators from both ends; of
  the code units below 256 these are the space, the five control characters from tab to
  carriage return, and the no-break space.
\<close>

definition is_space :: "char \<Rightarrow> bool" where
  "is_space c = (c \<in> set [CHR '' '', CHR 0x09, CHR 0x0A, CHR 0x0B, CHR 0x0C, CHR 0x0D, CHR 0xA0])"

definition trim :: "string \<Rightarrow> string" where
  "trim s = rev (dropWhile is_space (rev (dropWhile is_space s)))"

text \<open>
  \<^verbatim>\<open>!v?.trim()\<close>: \<^verbatim>\<open>undefined\<close> and \<^verbatim>\<open>null\<close> short-circuit to "missing"; a string is
  missing when it trims to the empty string; any other value has no \<^verbatim>\<open>trim\<close> method and
  the call throws a TypeError.
\<close>

definition is_blank :: "jsval \<Rightarrow> error + bool" where
  "is_blank v =
     (case v of
        Undefined \<Rightarrow> Inr True
      | Null \<Rightarrow> Inr True
      | Str s \<Rightarrow> Inr (trim s = [])
      | _ \<Rightarrow> Inl TypeError)"

definition push_if :: "bool \<Rightarrow> string \<Rightarrow> string list" where
  "push_if b msg = (if b then [msg] else [])"

definition validateContactData :: "obj \<Rightarrow> error + string list" where
  "validateContactData data =
     (case is_blank (fld data ''name'') of
        Inl e \<Rightarrow> Inl e
      | Inr b \<Rightarrow> Inr (push_if b ''Name is required''
          @ push_if (\<not> validateEnum (fld data ''relationship'') CONTACT_RELATIONSHIPS)
              ''Invalid relationship''
          @ push_if (\<not> validateEnum (fld data ''gender'') CONTACT_GENDER) ''Invalid gender''))"

definition validateFoodData :: "obj \<Rightarrow> error + string list" where
  "validateFoodData data =
     (case is_blank (fld data ''name'') of
        Inl e \<Rightarrow> Inl e
      | Inr b \<Rightarrow> Inr (push_if b ''Name is required''
          @ push_if (\<not> validateEnum (fld data ''category'') FOOD_CATEGORIES) ''Invalid category''))"

definition validatePhraseData :: "obj \<Rightarrow> error + string list" where
  "validatePhraseData data =
     (case is_blank (fld data ''text'') of
        Inl e \<Rightarrow> Inl e
      | Inr b \<Rightarrow> Inr (push_if b ''Text is required''
          @ push_if (\<not> validateEnum (fld data ''category'') PHRASE_CATEGORIES) ''Invalid category''))"

definition validateOrderData :: "obj \<Rightarrow> error + string list" where
  "validateOrderData data =
     (case is_blank (fld data ''orderNumber'') of
        Inl e \<Rightarrow> Inl e
      | Inr b \<Rightarrow> Inr (push_if b ''Order number is required''
          @ push_if (\<not> validateEnum (fld data ''status'') ORDER_STATUS) ''Invalid status''))"

definition validateActivityData :: "obj \<Rightarrow> error + string list" where
  "validateActivityData data =
     (case is_blank (fld data ''name'') of
        Inl e \<Rightarrow> Inl e
      | Inr b \<Rightarrow> Inr (push_if b ''Name is required''
          @ push_if (\<not> validateEnum (fld data ''category'') ACTIVITY_CATEGORIES) ''Invalid category''
          @ push_if (truthy (fld data ''isRecurring'')
                     \<and> \<not> validateEnum (fld data ''frequency'') ACTIVITY_FREQUENCY)
              ''Invalid frequency''))"

subsection \<open>Export, import, clear\<close>

definition all_colls :: "coll list" where
  "all_colls = [Emergencies, Foods, Contacts, Phrases, Orders, Activities]"

text \<open>
  A snapshot is the object \<^verbatim>\<open>{ emergencies, foods, contacts, phrases, orders, activities }\<close>;
  on import a property that is missing or not an array is \<open>None\<close> and is skipped.
\<close>

type_synonym snapshot = "coll \<Rightarrow> obj list option"

definition exportData :: "store \<Rightarrow> snapshot outcome" where
  "exportData s = (Inr (\<lambda>c. Some (tbl_toArray (s c))), s)"

definition import_coll :: "snapshot \<Rightarrow> coll \<Rightarrow> store \<Rightarrow> error + store" where
  "import_coll data c s =
     (case data c of
        None \<Rightarrow> Inr s
      | Some obs \<Rightarrow> (case bulkAdd (s c) obs of Inl e \<Rightarrow> Inl e | Inr t' \<Rightarrow> Inr (s(c := t'))))"

fun import_colls :: "snapshot \<Rightarrow> coll list \<Rightarrow> store \<Rightarrow> error + store" where
  "import_colls data [] s = Inr s"
| "import_colls data (c # cs) s =
     (case import_coll data c s of Inl e \<Rightarrow> Inl e | Inr s' \<Rightarrow> import_colls data cs s')"

text \<open>One read-write transaction over the six tables: a failure rolls every table back.\<close>

definition importData :: "snapshot \<Rightarrow> store \<Rightarrow> bool outcome" where
  "importData data s =
     (case import_colls data all_colls s of
        Inl e \<Rightarrow> (Inl e, s)
      | Inr s' \<Rightarrow> (Inr True, s'))"

definition clearAllData :: "store \<Rightarrow> bool outcome" where
  "clearAllData s = (Inr True, fold (\<lambda>c s'. s'(c := tbl_clear (s' c))) all_colls s)"

subsection \<open>Initial data\<close>

text \<open>
  \<^verbatim>\<open>/emergency.json\<close> is fetched at run time; the parsed document is a parameter of the
  loader: a list of body parts, each with its symptoms.
\<close>

record symptom_seed =
  type_s :: jsval
  description_s :: jsval
  symptomImage :: jsval
  icon_s :: jsval

record body_part_seed =
  name_b :: jsval
  description_b :: jsval
  bodyPartImage :: jsval
  icon_b :: jsval
  symptoms :: "symptom_seed list"

definition seed_symptom :: "string \<Rightarrow> symptom_seed \<Rightarrow> jsval" where
  "seed_symptom now symptom =
     Obj [(''type'', type_s symptom),
          (''description'', description_s symptom),
          (''symptomImage'', symptomImage symptom),
          (''icon'', icon_s symptom),
          (''usageCount'', Num 0),
          (''createdAt'', Str now)]"

text \<open>
  The loader reads the clock many times: once for every symptom while it builds a body
  part's record, and once more inside the \<^verbatim>\<open>addEmergency\<close> that stores it. The clock of
  a call is the sequence of its readings: \<open>clock i\<close> is what the \<open>i\<close>-th
  \<^verbatim>\<open>new Date().toISOString()\<close> of the call returns, counting from 0.
\<close>

type_synonym clock = "nat \<Rightarrow> string"

text \<open>\<^verbatim>\<open>bodyPart.symptoms.map(symptom => ({..., createdAt: new Date().toISOString()}))\<close>\<close>

fun stamp_symptoms :: "clock \<Rightarrow> nat \<Rightarrow> symptom_seed list \<Rightarrow> jsval list" where
  "stamp_symptoms clock i [] = []"
| "stamp_symptoms clock i (symptom # rest) =
     seed_symptom (clock i) symptom # stamp_symptoms clock (Suc i) rest"

definition emergencyDataItem :: "clock \<Rightarrow> nat \<Rightarrow> body_part_seed \<Rightarrow> obj" where
  "emergencyDataItem clock i bodyPart =
     [(''name'', name_b bodyPart),
      (''description'', description_b bodyPart),
      (''bodyPartImage'', bodyPartImage bodyPart),
      (''icon'', icon_b bodyPart),
      (''symptoms'', Arr (stamp_symptoms clock i (symptoms bodyPart)))]"

text \<open>
  The loop over the body parts, \<open>i\<close> being the number of clock readings made so far: the
  symptoms of a body part take the readings from \<open>i\<close> on, \<^verbatim>\<open>addEmergency\<close> the one after
  them.
\<close>

fun add_body_parts :: "clock \<Rightarrow> nat \<Rightarrow> body_part_seed list \<Rightarrow> store \<Rightarrow> unit outcome" where
  "add_body_parts clock i [] s = (Inr (), s)"
| "add_body_parts clock i (bodyPart # rest) s =
     (case addEmergency (clock (i + length (symptoms bodyPart)))
             (emergencyDataItem clock i bodyPart) s of
        (Inl e, s') \<Rightarrow> (Inl e, s')
      | (Inr _, s') \<Rightarrow> add_body_parts clock (Suc (i + length (symptoms bodyPart))) rest s')"

text \<open>
  \<open>fetched\<close> is what fetching and parsing the document yields: \<open>Inl\<close> when the request
  fails or the response is not ok.
\<close>

definition loadInitialEmergencyData ::
    "error + body_part_seed list \<Rightarrow> clock \<Rightarrow> store \<Rightarrow> unit outcome" where
  "loadInitialEmergencyData fetched clock s =
     (case getAllEmergencies s of
        (Inl e, s') \<Rightarrow> (Inl e, s')
      | (Inr existingEmergencies, s') \<Rightarrow>
          if length existingEmergencies > 0 then (Inr (), s')
          else (case fetched of
                  Inl e \<Rightarrow> (Inl e, s')
                | Inr body_parts \<Rightarrow> add_body_parts clock 0 body_parts s'))"

definition loadAllInitialData ::
    "error + body_part_seed list \<Rightarrow> clock \<Rightarrow> store \<Rightarrow> unit outcome" where
  "loadAllInitialData fetched clock s = loadInitialEmergencyData fetched clock s"

definition resetAndReloadData ::
    "error + body_part_seed list \<Rightarrow> clock \<Rightarrow> store \<Rightarrow> unit outcome" where
  "resetAndReloadData fetched clock s =
     (case clearAllData s of
        (Inl e, s') \<Rightarrow> (Inl e, s')
      | (Inr _, s') \<Rightarrow> loadAllInitialData fetched clock s')"

text \<open>
  What a reset leaves in the emergencies table, in closed form: one row per body part, in
  the order of the document, with consecutive keys from the generator's number \<open>g\<close> on,
  each stamped with the clock readings of its turn and carrying its key in \<^verbatim>\<open>id\<close>.
\<close>

definition seed_row :: "clock \<Rightarrow> nat \<Rightarrow> int \<Rightarrow> body_part_seed \<Rightarrow> ikey \<times> obj" where
  "seed_row clock i n bodyPart =
     (KNum n, emergencyDataItem clock i bodyPart
                @ [(''createdAt'', Str (clock (i + length (symptoms bodyPart)))), (''id'', Num n)])"

fun seeded_rows :: "clock \<Rightarrow> nat \<Rightarrow> int \<Rightarrow> body_part_seed list \<Rightarrow> (ikey \<times> obj) list" where
  "seeded_rows clock i g [] = []"
| "seeded_rows clock i g (bodyPart # rest) =
     seed_row clock i g bodyPart
       # seeded_rows clock (Suc (i + length (symptoms bodyPart))) (g + 1) rest"

section \<open>The image store\<close>

text \<open>
  User images live in a second database with one object store \<^verbatim>\<open>userImages\<close>, keyed by
  the record's \<^verbatim>\<open>id\<close>. Opening the database can fail; every operation opens it first.
\<close>

record image_data =
  id_f :: string
  type_f :: jsval
  base64Data :: string
  originalName :: string
  size_f :: nat
  bodyPartId :: jsval
  symptomId :: jsval
  contactId :: jsval
  foodId :: jsval
  phraseId :: jsval

record image_record = image_data +
  uploadDate :: string

datatype blobdb = Unavailable | Open "string \<rightharpoonup> image_record"

definition initDB :: "blobdb \<Rightarrow> error + (string \<rightharpoonup> image_record)" where
  "initDB db = (case db of Unavailable \<Rightarrow> Inl StorageError | Open m \<Rightarrow> Inr m)"

definition storeUserImage :: "string \<Rightarrow> image_data \<Rightarrow> blobdb \<Rightarrow> (error + string) \<times> blobdb" where
  "storeUserImage now imageData db =
     (case initDB db of
        Inl e \<Rightarrow> (Inl e, db)
      | Inr m \<Rightarrow>
          (let imageRecord = \<lparr>id_f = id_f imageData, type_f = type_f imageData,
                 base64Data = base64Data imageData, originalName = originalName imageData,
                 size_f = size_f imageData, bodyPartId = bodyPartId imageData,
                 symptomId = symptomId imageData, contactId = contactId imageData,
                 foodId = foodId imageData, phraseId = phraseId imageData,
                 uploadDate = now\<rparr>
           in (Inr (id_f imageData), Open (m(id_f imageData \<mapsto> imageRecord)))))"

definition getUserImage :: "string \<Rightarrow> blobdb \<Rightarrow> error + image_record option" where
  "getUserImage imageId db = (case initDB db of Inl e \<Rightarrow> Inl e | Inr m \<Rightarrow> Inr (m imageId))"

definition generateImageId :: "jsval \<Rightarrow> jsval \<Rightarrow> nat \<Rightarrow> string \<Rightarrow> string" where
  "generateImageId type identifier timestamp random =
     ''user_upload_'' @ js_to_string type @ ''_'' @ js_to_string identifier @ ''_''
       @ show_nat timestamp @ ''_'' @ random"

text \<open>
  The id format in the specification's words:
  \<^verbatim>\<open>{type}_{ownerId}_{timestampMillis}_{randomSuffix}\<close>.
\<close>

definition spec_image_id :: "jsval \<Rightarrow> jsval \<Rightarrow> nat \<Rightarrow> string \<Rightarrow> string" where
  "spec_image_id type ownerId timestampMillis randomSuffix =
     js_to_string type @ ''_'' @ js_to_string ownerId @ ''_''
       @ show_nat timestampMillis @ ''_'' @ randomSuffix"

definition starts_with :: "string \<Rightarrow> string \<Rightarrow> bool" where
  "starts_with p s = (take (length p) s = p)"

text \<open>
  \<^verbatim>\<open>imagePath && imagePath.startsWith('user_upload_')\<close>, read as a condition: a falsy
  path is no upload; a truthy value that is not a string has no \<^verbatim>\<open>startsWith\<close>.
\<close>

definition isUserUploadedImage :: "jsval \<Rightarrow> error + bool" where
  "isUserUploadedImage imagePath =
     (if \<not> truthy imagePath then Inr False
      else case imagePath of
          Str s \<Rightarrow> Inr (starts_with ''user_upload_'' s)
        | _ \<Rightarrow> Inl TypeError)"

definition getImageSource :: "jsval \<Rightarrow> blobdb \<Rightarrow> error + jsval" where
  "getImageSource imagePath db =
     (case isUserUploadedImage imagePath of
        Inl e \<Rightarrow> Inl e
      | Inr True \<Rightarrow>
          (case getUserImage (js_to_string imagePath) db of
             Inl e \<Rightarrow> Inr Null
           | Inr None \<Rightarrow> Inr Null
           | Inr (Some imageData) \<Rightarrow> Inr (Str (base64Data imageData)))
      | Inr False \<Rightarrow> Inr imagePath)"

section \<open>The upload pipeline\<close>

record upload_file =
  name_u :: string
  type_u :: string
  size_u :: nat

text \<open>
  What the browser contributes to one upload: the canvas re-encoding, the FileReader
  encoding, \<^verbatim>\<open>Date.now()\<close>, the suffix \<^verbatim>\<open>Math.random().toString(36).substring(2, 15)\<close>
  and the clock reading of \<^verbatim>\<open>storeUserImage\<close>.
\<close>

record env =
  compressImage :: "upload_file \<Rightarrow> error + upload_file"
  blobToBase64 :: "upload_file \<Rightarrow> error + string"
  date_now :: nat
  random_suffix :: string
  now_iso :: string

record validation =
  isValid :: bool
  errors :: "string list"

definition validateImageFile :: "upload_file \<Rightarrow> validation" where
  "validateImageFile f =
     (let maxSize = 5 * 1024 * 1024;
          errs = push_if (\<not> starts_with ''image/'' (type_u f)) ''File must be an image''
               @ push_if (size_u f > maxSize) ''File size must be less than 5MB''
      in \<lparr>isValid = (length errs = 0), errors = errs\<rparr>)"

text \<open>
  The result object of a successful upload. Its \<^verbatim>\<open>compressionRatio\<close>, a floating-point
  percentage formatted with \<^verbatim>\<open>toFixed(1)\<close>, is not part of the model.
\<close>

record upload_result =
  success :: bool
  imageId :: string
  data_r :: string
  originalSize :: nat
  compressedSize :: nat

definition owner_key :: "jsval \<Rightarrow> string \<Rightarrow> jsval \<Rightarrow> jsval" where
  "owner_key imageType t identifier = (if imageType = Str t then identifier else Null)"

definition processAndStoreImage ::
    "env \<Rightarrow> upload_file \<Rightarrow> jsval \<Rightarrow> jsval \<Rightarrow> blobdb \<Rightarrow> (error + upload_result) \<times> blobdb" where
  "processAndStoreImage e f imageType identifier db =
     (let maxFileSize = 5 * 1024 * 1024 in
      if \<not> starts_with ''image/'' (type_u f) then (Inl (Error ''File must be an image''), db)
      else if size_u f > maxFileSize then
        (Inl (Error (''File size must be less than ''
                       @ show_nat (maxFileSize div (1024 * 1024)) @ ''MB'')), db)
      else
        (case (if size_u f > 1 * 1024 * 1024 then compressImage e f else Inr f) of
           Inl err \<Rightarrow> (Inl err, db)
         | Inr processedFile \<Rightarrow>
             (case blobToBase64 e processedFile of
                Inl err \<Rightarrow> (Inl err, db)
              | Inr b64 \<Rightarrow>
                  (let imgId = generateImageId imageType identifier (date_now e) (random_suffix e);
                       imageData = \<lparr>id_f = imgId, type_f = imageType, base64Data = b64,
                          originalName = name_u f, size_f = size_u processedFile,
                          bodyPartId = owner_key imageType ''bodypart'' identifier,
                          symptomId = owner_key imageType ''symptom'' identifier,
                          contactId = owner_key imageType ''contact'' identifier,
                          foodId = owner_key imageType ''food'' identifier,
                          phraseId = owner_key imageType ''phrase'' identifier\<rparr>
                   in case storeUserImage (now_iso e) imageData db of
                        (Inl err, db') \<Rightarrow> (Inl err, db')
                      | (Inr _, db') \<Rightarrow>
                          (Inr \<lparr>success = True, imageId = imgId, data_r = b64,
                                originalSize = size_u f, compressedSize = size_u processedFile\<rparr>,
                           db')))))"

text \<open>
  \<^verbatim>\<open>handleFile\<close> of the upload component: validate, check the parameters, process. Its
  \<^verbatim>\<open>catch\<close> shows the error's message instead of rethrowing; \<open>Inl\<close> is that caught error.
\<close>

definition handleFile ::
    "env \<Rightarrow> upload_file \<Rightarrow> jsval \<Rightarrow> jsval \<Rightarrow> blobdb \<Rightarrow> (error + upload_result) \<times> blobdb" where
  "handleFile e f imageType identifier db =
     (let v = validateImageFile f in
      if \<not> isValid v then (Inl (Error (join '', '' (errors v))), db)
      else if \<not> truthy imageType \<or> \<not> truthy identifier then
        (Inl (Error ''Missing image type or identifier''), db)
      else processAndStoreImage e f imageType identifier db)"

section \<open>Example states\<close>

text \<open>The contact of the specification's scenario, and the store after adding it at time \<open>t0\<close>.\<close>

definition mom :: obj where
  "mom = [(''name'', Str ''Mom''), (''relationship'', Str ''family''), (''gender'', Str ''female''),
          (''phoneNumber'', Str ''5551234'')]"

definition mom_row :: obj where
  "mom_row = [(''name'', Str ''Mom''), (''relationship'', Str ''family''),
          (''gender'', Str ''female''), (''phoneNumber'', Str ''5551234''),
          (''createdAt'', Str ''t0''), (''updatedAt'', Str ''t0''), (''id'', Num 1)]"

definition mom_store :: store where
  "mom_store = empty_store(Contacts := \<lparr>rows = [(KNum 1, mom_row)], nextKey = 2\<rparr>)"

text \<open>The \<^verbatim>\<open>contacts\<close> array of the snapshot that \<^verbatim>\<open>exportData\<close> resolves with.\<close>

definition exported_contacts :: "store \<Rightarrow> obj list option" where
  "exported_contacts s =
     (case fst (exportData s) of Inl e \<Rightarrow> None | Inr snapshot \<Rightarrow> snapshot Contacts)"

text \<open>A 6 MB upload, and an image store holding one user image.\<close>

definition big_file :: upload_file where
  "big_file = \<lparr>name_u = ''photo.png'', type_u = ''image/png'', size_u = 6 * 1024 * 1024\<rparr>"

definition head_image :: image_record where
  "head_image = \<lparr>id_f = ''user_upload_bodypart_1_5_abc'', type_f = Str ''bodypart'',
      base64Data = ''data:image/png;base64,AAAA'', originalName = ''head.png'', size_f = 4,
      bodyPartId = Num 1, symptomId = Null, contactId = Null, foodId = Null, phraseId = Null,
      uploadDate = ''t0''\<rparr>"

definition image_db :: blobdb where
  "image_db = Open [''user_upload_bodypart_1_5_abc'' \<mapsto> head_image]"

text \<open>Three contacts: used three times, never used (no counter), used five times.\<close>

definition ann :: obj where
  "ann = [(''name'', Str ''Ann''), (''usageCount'', Num 3), (''id'', Num 1)]"

definition bob :: obj where
  "bob = [(''name'', Str ''Bob''), (''id'', Num 2)]"

definition cyd :: obj where
  "cyd = [(''name'', Str ''Cyd''), (''usageCount'', Num 5), (''id'', Num 3)]"

definition three_contacts :: store where
  "three_contacts = empty_store(Contacts :=
     \<lparr>rows = [(KNum 1, ann), (KNum 2, bob), (KNum 3, cyd)], nextKey = 4\<rparr>)"

text \<open>A store with one emergency, created at time \<open>t0\<close>.\<close>

definition head_row :: obj where
  "head_row = [(''name'', Str ''Head''), (''createdAt'', Str ''t0''), (''id'', Num 1)]"

definition head_store :: store where
  "head_store = empty_store(Emergencies := \<lparr>rows = [(KNum 1, head_row)], nextKey = 2\<rparr>)"

text \<open>A food whose category is not one of the food categories.\<close>

definition pizza :: obj where
  "pizza = [(''name'', Str ''Pizza''), (''category'', Str ''junk'')]"

definition pizza_row :: obj where
  "pizza_row = [(''name'', Str ''Pizza''), (''category'', Str ''junk''),
                (''createdAt'', Str ''t0''), (''id'', Num 1)]"

definition pizza_store :: store where
  "pizza_store = empty_store(Foods := \<lparr>rows = [(KNum 1, pizza_row)], nextKey = 2\<rparr>)"

text \<open>A seed document with one body part and one symptom.\<close>

definition head_part :: body_part_seed where
  "head_part = \<lparr>name_b = Str ''Head'', description_b = Str ''Head and face'',
      bodyPartImage = Str ''/image/head.png'', icon_b = Str ''head'',
      symptoms = [\<lparr>type_s = Str ''Headache'', description_s = Str ''Pain in the head'',
                   symptomImage = Str ''/image/headache.png'', icon_s = Str ''ache''\<rparr>]\<rparr>"

text \<open>
  Two clocks, one for each of two calls of the loader. The first reading of a call falls
  in one millisecond and the later ones in the next.
\<close>

definition morning :: clock where
  "morning i = (if i = 0 then ''2024-01-01T08:00:00.001Z'' else ''2024-01-01T08:00:00.002Z'')"

definition evening :: clock where
  "evening i = (if i = 0 then ''2024-01-01T20:00:00.001Z'' else ''2024-01-01T20:00:00.002Z'')"

text \<open>
  Two small uploads for the same owner in the same millisecond, drawing the same random
  suffix, into an image store that is empty.
\<close>

definition no_images :: blobdb where
  "no_images = Open Map.empty"

definition same_tick :: env where
  "same_tick = \<lparr>compressImage = Inr, blobToBase64 = (\<lambda>f. Inr (''data:'' @ name_u f)),
      date_now = 5, random_suffix = ''abc'', now_iso = ''t0''\<rparr>"

definition file_a :: upload_file where
  "file_a = \<lparr>name_u = ''a.png'', type_u = ''image/png'', size_u = 10\<rparr>"

definition file_b :: upload_file where
  "file_b = \<lparr>name_u = ''b.png'', type_u = ''image/png'', size_u = 10\<rparr>"

definition first_upload :: "(error + upload_result) \<times> blobdb" where
  "first_upload = processAndStoreImage same_tick file_a (Str ''food'') (Num 1) no_images"

definition second_upload :: "(error + upload_result) \<times> blobdb" where
  "second_upload = processAndStoreImage same_tick file_b (Str ''food'') (Num 1) (snd first_upload)"


text \<open>A food whose counter has reached \<open>2\<^sup>5\<^sup>3 = 9007199254740992\<close>.\<close>

definition tea :: obj where
  "tea = [(''name'', Str ''Tea''), (''usageCount'', Num 9007199254740992),
          (''createdAt'', Str ''t0''), (''id'', Num 1)]"

definition tea_store :: store where
  "tea_store = empty_store(Foods := \<lparr>rows = [(KNum 1, tea)], nextKey = 2\<rparr>)"
section \<open>Well-formed tables\<close>

text \<open>
  What IndexedDB maintains for a table with the in-line key \<^verbatim>\<open>++id\<close>: the records are in
  strictly increasing key order, each record carries its key in \<^verbatim>\<open>id\<close>, and the key
  generator is past every numeric key (past the limit, for the keys beyond it). The empty store is well formed and every store
  operation keeps a store well formed.
\<close>

definition below_generator :: "int \<Rightarrow> ikey \<Rightarrow> bool" where
  "below_generator g k = (case k of KNum n \<Rightarrow> min n generator_limit < g | _ \<Rightarrow> True)"

definition wf_rows :: "int \<Rightarrow> (ikey \<times> obj) list \<Rightarrow> bool" where
  "wf_rows g rs =
     (list_all (\<lambda>r. fld (snd r) ''id'' = of_key (fst r)) rs
      \<and> list_all (\<lambda>r. below_generator g (fst r)) rs)"

definition wf_table :: "table \<Rightarrow> bool" where
  "wf_table t = (sorted_wrt key_lt (map fst (rows t)) \<and> wf_rows (nextKey t) (rows t))"

definition wf_store :: "store \<Rightarrow> bool" where
  "wf_store s = list_all (\<lambda>c. wf_table (s c)) all_colls"

text \<open>
  The states the store can be in: the empty database, and whatever an operation leaves
  behind. \<open>add_record\<close> covers the six \<^verbatim>\<open>add\<close> operations, \<open>update_record\<close> covers
  \<^verbatim>\<open>updateEmergency\<close> and \<^verbatim>\<open>updateOrderStatus\<close>, and \<open>modify_record\<close> the usage-count
  and toggle operations.
\<close>

inductive reachable :: "store \<Rightarrow> bool" where
  init: "reachable empty_store"
| add: "reachable s \<Longrightarrow> reachable (snd (add_record c rec s))"
| update: "reachable s \<Longrightarrow> reachable (snd (update_record c k patch s))"
| modify: "reachable s \<Longrightarrow> reachable (snd (modify_record c k patch_of s))"
| delete: "reachable s \<Longrightarrow> reachable (snd (deleteEmergency k s))"
| clear: "reachable s \<Longrightarrow> reachable (snd (clearAllData s))"
| imported: "reachable s \<Longrightarrow> reachable (snd (importData snapshot s))"
| reset: "reachable s \<Longrightarrow> reachable (snd (resetAndReloadData fetched clock s))"

section \<open>Properties of the table operations\<close>

lemma fld_update: "fld (AList.update k v ob) k' = (if k' = k then v else fld ob k')"
  by (simp add: fld_def update_conv')

lemma fld_delete: "fld (AList.delete k ob) k' = (if k' = k then Undefined else fld ob k')"
  by (simp add: fld_def delete_conv')

lemma map_of_replace_row:
  "map_of (replace_row k ob rs) k' = (if k' = k \<and> map_of rs k \<noteq> None then Some ob else map_of rs k')"
  by (induction rs) (auto simp: replace_row_def)

lemma tbl_update_absent: "map_of (rows t) k = None \<Longrightarrow> tbl_update t k patch = Inr t"
  by (simp add: tbl_update_def)

lemma tbl_update_same_id:
  "map_of (rows t) k = Some ob \<Longrightarrow> fld (apply_patch patch ob) ''id'' = fld ob ''id''
     \<Longrightarrow> tbl_update t k patch = Inr (t\<lparr>rows := replace_row k (apply_patch patch ob) (rows t)\<rparr>)"
  by (simp add: tbl_update_def)

lemma apply_patch_Nil: "apply_patch [] ob = ob"
  by (simp add: apply_patch_def)

lemma apply_patch_Cons:
  "apply_patch ((k, v) # p) ob =
     apply_patch p (if v = Undefined then AList.delete k ob else AList.update k v ob)"
  by (simp add: apply_patch_def)

lemma fld_apply_patch_other:
  "k \<notin> fst ` set patch \<Longrightarrow> fld (apply_patch patch ob) k = fld ob k"
proof (induction patch arbitrary: ob)
  case Nil
  show ?case by (simp add: apply_patch_Nil)
next
  case (Cons a patch)
  obtain k' v where a: "a = (k', v)" by (cases a)
  with Cons.prems have "k \<noteq> k'" and "k \<notin> fst ` set patch" by auto
  then show ?case
    using Cons.IH by (simp add: a apply_patch_Cons fld_update fld_delete)
qed

lemma update_record_present:
  assumes "tbl_get (s c) k = Some ob" and "''id'' \<notin> fst ` set patch"
  shows "update_record c k patch s =
           (Inr (Some (apply_patch patch ob)),
            s(c := (s c)\<lparr>rows := replace_row k (apply_patch patch ob) (rows (s c))\<rparr>))"
proof -
  have m: "map_of (rows (s c)) k = Some ob" using assms(1) by (simp add: tbl_get_def)
  have "fld (apply_patch patch ob) ''id'' = fld ob ''id''"
    using assms(2) by (rule fld_apply_patch_other)
  with m have "tbl_update (s c) k patch =
      Inr ((s c)\<lparr>rows := replace_row k (apply_patch patch ob) (rows (s c))\<rparr>)"
    by (rule tbl_update_same_id)
  then show ?thesis
    using m by (simp add: update_record_def tbl_get_def map_of_replace_row)
qed

lemma update_record_absent:
  "tbl_get (s c) k = None \<Longrightarrow> update_record c k patch s = (Inr None, s)"
  by (simp add: update_record_def tbl_get_def tbl_update_absent)

lemma modify_record_absent:
  "tbl_get (s c) k = None \<Longrightarrow> modify_record c k patch_of s = (Inl TypeError, s)"
  by (simp add: modify_record_def)

lemma modify_record_present:
  assumes "tbl_get (s c) k = Some ob" and "''id'' \<notin> fst ` set (patch_of ob)"
  shows "modify_record c k patch_of s =
           (Inr (Some (apply_patch (patch_of ob) ob)),
            s(c := (s c)\<lparr>rows := replace_row k (apply_patch (patch_of ob) ob) (rows (s c))\<rparr>))"
  using assms by (simp add: modify_record_def update_record_present)

lemma incr_count_Undefined: "incr_count Undefined = Num 1"
  by (simp add: incr_count_def truthy_def)

lemma round_to_double_exact: "\<bar>m\<bar> \<le> 2 ^ 53 \<Longrightarrow> round_to_double m = m"
  by (simp add: round_to_double_def)

lemma incr_count_Num:
  assumes "- (2 ^ 53) \<le> n" and "n < 2 ^ 53"
  shows "incr_count (Num n) = Num (n + 1)"
proof (cases "n = 0")
  case True
  then show ?thesis by (simp add: incr_count_def truthy_def)
next
  case False
  have "\<bar>n + 1\<bar> \<le> 2 ^ 53" using assms by linarith
  then have "round_to_double (n + 1) = n + 1" by (rule round_to_double_exact)
  then show ?thesis using False by (simp add: incr_count_def truthy_def)
qed

lemma incr_count_NaN: "incr_count NaN = Num 1"
  by (simp add: incr_count_def truthy_def)

lemma bitlen_bounds: "2 ^ k \<le> n \<Longrightarrow> n < 2 ^ Suc k \<Longrightarrow> bitlen n = Suc k"
proof (induction k arbitrary: n)
  case 0
  then have "n = 1" by simp
  then show ?case by (simp add: bitlen.simps)
next
  case (Suc k)
  have "2 ^ k \<le> n div 2" using Suc.prems(1) by simp
  moreover have "n div 2 < 2 ^ Suc k" using Suc.prems(2) by simp
  ultimately have "bitlen (n div 2) = Suc k" by (rule Suc.IH)
  moreover have "(0::nat) < 2 ^ Suc k" by simp
  then have "n \<noteq> 0" using Suc.prems(1) by linarith
  ultimately show ?case by (subst bitlen.simps) simp
qed

lemma round_past_limit: "round_to_double (9007199254740992 + 1) = 9007199254740992"
proof -
  have "bitlen (nat \<bar>9007199254740993\<bar>) = Suc 53"
    by (rule bitlen_bounds) simp_all
  then show ?thesis by (simp add: round_to_double_def Let_def)
qed

lemma incr_count_limit: "incr_count (Num 9007199254740992) = Num 9007199254740992"
  using round_past_limit by (simp add: incr_count_def truthy_def)

lemma incr_count_not_Undefined: "incr_count v \<noteq> Undefined"
  by (cases v) (auto simp: incr_count_def truthy_def)

lemma addContact_mom: "addContact ''t0'' mom empty_store = (Inr ((''id'', Num 1) # AList.update ''updatedAt'' (Str ''t0'') (AList.update ''createdAt'' (Str ''t0'') mom)), mom_store)"
  by (simp add: addContact_def add_record_def tbl_add_def mom_def mom_row_def mom_store_def empty_store_def empty_table_def fld_def Let_def AList.delete_eq
        generator_limit_def)

section \<open>Decimal rendering\<close>

lemma show_nat_5: "show_nat 5 = ''5''"
  by (simp add: show_nat.simps digit_def)

section \<open>The key order is a strict linear order\<close>

lemma keys_lt_eq: "keys_lt xs ys = lex_lt key_lt xs ys"
  by (induction key_lt xs ys rule: lex_lt.induct) simp_all

lemma lex_lt_irrefl: "(\<And>x. x \<in> set xs \<Longrightarrow> \<not> lt x x) \<Longrightarrow> \<not> lex_lt lt xs xs"
  by (induction xs) auto

lemma lex_lt_trans:
  "(\<And>x y z. x \<in> set xs \<Longrightarrow> lt x y \<Longrightarrow> lt y z \<Longrightarrow> lt x z)
     \<Longrightarrow> lex_lt lt xs ys \<Longrightarrow> lex_lt lt ys zs \<Longrightarrow> lex_lt lt xs zs"
proof (induction xs arbitrary: ys zs)
  case Nil
  then show ?case by (cases ys; cases zs) auto
next
  case (Cons x xs)
  show ?case
  proof (cases ys)
    case Nil
    with Cons.prems show ?thesis by simp
  next
    case ys: (Cons y ys')
    show ?thesis
    proof (cases zs)
      case Nil
      with Cons.prems ys show ?thesis by simp
    next
      case zs: (Cons z zs')
      have tr: "\<And>a b. lt x a \<Longrightarrow> lt a b \<Longrightarrow> lt x b"
        using Cons.prems(1) by simp
      have IH: "lex_lt lt xs ys' \<Longrightarrow> lex_lt lt ys' zs' \<Longrightarrow> lex_lt lt xs zs'"
        using Cons.IH[of ys' zs'] Cons.prems(1) by simp
      from Cons.prems(2,3) ys zs
      have "lt x y \<or> (x = y \<and> lex_lt lt xs ys')" "lt y z \<or> (y = z \<and> lex_lt lt ys' zs')"
        by simp_all
      then have "lt x z \<or> (x = z \<and> lex_lt lt xs zs')"
        using tr IH by blast
      then show ?thesis using ys zs by simp
    qed
  qed
qed

lemma lex_lt_total:
  "(\<And>x y. x \<in> set xs \<Longrightarrow> x \<noteq> y \<Longrightarrow> lt x y \<or> lt y x)
     \<Longrightarrow> xs \<noteq> ys \<Longrightarrow> lex_lt lt xs ys \<or> lex_lt lt ys xs"
proof (induction xs arbitrary: ys)
  case Nil
  then show ?case by (cases ys) auto
next
  case (Cons x xs)
  show ?case
  proof (cases ys)
    case Nil
    then show ?thesis by simp
  next
    case ys: (Cons y ys')
    show ?thesis
    proof (cases "x = y")
      case True
      then have "xs \<noteq> ys'" using Cons.prems(2) ys by simp
      then have "lex_lt lt xs ys' \<or> lex_lt lt ys' xs"
        using Cons.IH[of ys'] Cons.prems(1) by simp
      then show ?thesis using ys True by auto
    next
      case False
      then have "lt x y \<or> lt y x" using Cons.prems(1)[of x y] by simp
      then show ?thesis using ys by auto
    qed
  qed
qed

lemma char_lt_irrefl: "\<not> char_lt c c"
  by (simp add: char_lt_def)

lemma char_lt_trans: "char_lt a b \<Longrightarrow> char_lt b c \<Longrightarrow> char_lt a c"
  by (simp add: char_lt_def)

lemma char_lt_total: "a \<noteq> b \<Longrightarrow> char_lt a b \<or> char_lt b a"
proof -
  assume "a \<noteq> b"
  then have "(of_char a :: nat) \<noteq> of_char b" by simp
  then show ?thesis unfolding char_lt_def by linarith
qed

lemma key_lt_irrefl: "\<not> key_lt k k"
proof (induction k)
  case (KNum x)
  show ?case by simp
next
  case (KStr x)
  show ?case using lex_lt_irrefl[where xs=x and lt=char_lt] char_lt_irrefl by simp
next
  case (KArr xs)
  then show ?case using lex_lt_irrefl[where xs=xs and lt=key_lt] by (simp add: keys_lt_eq)
qed

lemma key_lt_trans: "key_lt a b \<Longrightarrow> key_lt b c \<Longrightarrow> key_lt a c"
proof (induction a arbitrary: b c)
  case (KNum x)
  then show ?case by (cases b; cases c) simp_all
next
  case (KStr x)
  show ?case
  proof (cases b; cases c)
    fix y z assume bc: "b = KStr y" "c = KStr z"
    with KStr have "lex_lt char_lt x y" "lex_lt char_lt y z" by simp_all
    then have "lex_lt char_lt x z"
      using lex_lt_trans[where xs=x and lt=char_lt and ys=y and zs=z] char_lt_trans by blast
    with bc show ?thesis by simp
  qed (use KStr in simp_all)
next
  case (KArr xs)
  show ?case
  proof (cases b; cases c)
    fix ys zs assume bc: "b = KArr ys" "c = KArr zs"
    with KArr.prems have "lex_lt key_lt xs ys" "lex_lt key_lt ys zs" by (simp_all add: keys_lt_eq)
    then have "lex_lt key_lt xs zs"
      using lex_lt_trans[where xs=xs and lt=key_lt and ys=ys and zs=zs] KArr.IH by blast
    with bc show ?thesis by (simp add: keys_lt_eq)
  qed (use KArr.prems in simp_all)
qed

lemma key_lt_total: "a \<noteq> b \<Longrightarrow> key_lt a b \<or> key_lt b a"
proof (induction a arbitrary: b)
  case (KNum x)
  then show ?case by (cases b) auto
next
  case (KStr x)
  show ?case
  proof (cases b)
    case (KStr y)
    with KStr.prems have "x \<noteq> y" by simp
    then have "lex_lt char_lt x y \<or> lex_lt char_lt y x"
      using lex_lt_total[where xs=x and ys=y and lt=char_lt] char_lt_total by blast
    with KStr show ?thesis by simp
  qed simp_all
next
  case (KArr xs)
  show ?case
  proof (cases b)
    case (KArr ys)
    with KArr.prems have "xs \<noteq> ys" by simp
    then have "lex_lt key_lt xs ys \<or> lex_lt key_lt ys xs"
      using lex_lt_total[where xs=xs and ys=ys and lt=key_lt] KArr.IH by blast
    with KArr show ?thesis by (simp add: keys_lt_eq)
  qed simp_all
qed

lemma key_lt_asym: "key_lt a b \<Longrightarrow> \<not> key_lt b a"
  using key_lt_trans key_lt_irrefl by blast

section \<open>Well-formedness is preserved\<close>

lemma of_key_not_Undefined: "of_key k \<noteq> Undefined"
  by (cases k) simp_all

lemma those_map_Some: "(\<And>x. x \<in> set xs \<Longrightarrow> f x = Some (g x)) \<Longrightarrow> those (map f xs) = Some (map g xs)"
  by (induction xs) simp_all

lemma to_key_of_key: "to_key (of_key k) = Some k"
proof (induction k)
  case (KArr ks)
  have "those (map to_key (map of_key ks)) = Some (map id ks)"
    unfolding map_map by (rule those_map_Some) (simp add: KArr)
  then show ?case by simp
qed simp_all

lemma insert_row_append:
  "(\<And>r. r \<in> set xs \<Longrightarrow> key_lt (fst r) k) \<Longrightarrow> insert_row k ob xs = xs @ [(k, ob)]"
proof (induction xs)
  case Nil
  show ?case by simp
next
  case (Cons r xs)
  have "key_lt (fst r) k" using Cons.prems by simp
  then have "\<not> key_lt k (fst r)" by (rule key_lt_asym)
  moreover have "insert_row k ob xs = xs @ [(k, ob)]" using Cons by simp
  ultimately show ?case by simp
qed

lemma map_of_absent: "k \<notin> fst ` set xs \<Longrightarrow> map_of xs k = None"
  by (simp add: map_of_eq_None_iff)

lemma bulkAdd_restores:
  "sorted_wrt key_lt (map fst (xs @ ys)) \<Longrightarrow> wf_rows g ys
     \<Longrightarrow> bulkAdd \<lparr>rows = xs, nextKey = g\<rparr> (map snd ys) = Inr \<lparr>rows = xs @ ys, nextKey = g\<rparr>"
proof (induction ys arbitrary: xs)
  case Nil
  show ?case by simp
next
  case (Cons r ys)
  obtain k ob where r: "r = (k, ob)" by (cases r)
  have before: "\<And>x. x \<in> set xs \<Longrightarrow> key_lt (fst x) k"
    using Cons.prems(1) by (auto simp: r sorted_wrt_append)
  have idk: "fld ob ''id'' = of_key k" and bel: "below_generator g k"
    using Cons.prems(2) by (simp_all add: wf_rows_def r)
  have notin: "map_of xs k = None"
  proof (rule map_of_absent, rule notI)
    assume "k \<in> fst ` set xs"
    then obtain x where "x \<in> set xs" "fst x = k" by auto
    with before[of x] show False using key_lt_irrefl by simp
  qed
  have ins: "insert_row k ob xs = xs @ [(k, ob)]"
    using before by (rule insert_row_append)
  have bump: "bump k g = g"
    using bel by (cases k) (auto simp: bump_def below_generator_def Let_def)
  have add: "tbl_add \<lparr>rows = xs, nextKey = g\<rparr> ob = Inr (k, \<lparr>rows = xs @ [(k, ob)], nextKey = g\<rparr>)"
    by (simp add: tbl_add_def idk of_key_not_Undefined to_key_of_key notin ins bump)
  have s: "sorted_wrt key_lt (map fst ((xs @ [(k, ob)]) @ ys))"
    using Cons.prems(1) by (simp add: r)
  have w: "wf_rows g ys" using Cons.prems(2) by (simp add: wf_rows_def)
  show ?case
    using Cons.IH[OF s w] by (simp add: r add)
qed

lemma bulkAdd_cleared:
  assumes "wf_table t"
  shows "bulkAdd (tbl_clear t) (tbl_toArray t) = Inr t"
proof -
  have "bulkAdd \<lparr>rows = [], nextKey = nextKey t\<rparr> (map snd (rows t))
          = Inr \<lparr>rows = [] @ rows t, nextKey = nextKey t\<rparr>"
    using assms by (intro bulkAdd_restores) (simp_all add: wf_table_def)
  moreover have "tbl_clear t = \<lparr>rows = [], nextKey = nextKey t\<rparr>"
    by (cases t) (simp add: tbl_clear_def)
  moreover have "\<lparr>rows = [] @ rows t, nextKey = nextKey t\<rparr> = t"
    by (cases t) simp
  ultimately show ?thesis by (simp add: tbl_toArray_def)
qed

lemma clearAllData_eq: "clearAllData s = (Inr True, \<lambda>c. tbl_clear (s c))"
proof -
  have "fold (\<lambda>c s'. s'(c := tbl_clear (s' c))) all_colls s = (\<lambda>c. tbl_clear (s c))"
  proof
    fix c show "fold (\<lambda>c s'. s'(c := tbl_clear (s' c))) all_colls s c = tbl_clear (s c)"
      by (cases c) (simp_all add: all_colls_def)
  qed
  then show ?thesis by (simp add: clearAllData_def)
qed

lemma coll_in_all: "c \<in> set all_colls"
  by (cases c) (simp_all add: all_colls_def)

lemma wf_storeD: "wf_store s \<Longrightarrow> wf_table (s c)"
  using coll_in_all[of c] by (simp add: wf_store_def list_all_iff)

lemma wf_storeI: "(\<And>c. wf_table (s c)) \<Longrightarrow> wf_store s"
  by (simp add: wf_store_def list_all_iff)

lemma import_colls_restores:
  assumes "wf_store s" and "distinct cs"
    and "\<And>c. c \<in> set cs \<Longrightarrow> s' c = tbl_clear (s c)"
  shows "import_colls (\<lambda>c. Some (tbl_toArray (s c))) cs s' = Inr (\<lambda>c. if c \<in> set cs then s c else s' c)"
  using assms(2,3)
proof (induction cs arbitrary: s')
  case Nil
  show ?case by simp
next
  case (Cons c cs)
  have "bulkAdd (s' c) (tbl_toArray (s c)) = Inr (s c)"
    using Cons.prems(2)[of c] bulkAdd_cleared[OF wf_storeD[OF assms(1)], of c] by simp
  then have step: "import_coll (\<lambda>c. Some (tbl_toArray (s c))) c s' = Inr (s'(c := s c))"
    by (simp add: import_coll_def)
  have d: "distinct cs" and n: "c \<notin> set cs" using Cons.prems(1) by simp_all
  have rest: "\<And>c'. c' \<in> set cs \<Longrightarrow> (s'(c := s c)) c' = tbl_clear (s c')"
    using Cons.prems(2) n by auto
  have "import_colls (\<lambda>c. Some (tbl_toArray (s c))) cs (s'(c := s c))
          = Inr (\<lambda>c'. if c' \<in> set cs then s c' else (s'(c := s c)) c')"
    by (rule Cons.IH[OF d rest])
  moreover have "(\<lambda>c'. if c' \<in> set cs then s c' else (s'(c := s c)) c')
                 = (\<lambda>c'. if c' \<in> set (c # cs) then s c' else s' c')"
    by (rule ext) simp
  ultimately show ?case by (simp add: step)
qed

lemma set_insert_row: "set (insert_row k ob rs) = insert (k, ob) (set rs)"
  by (induction rs) auto

lemma sorted_insert_row:
  "sorted_wrt key_lt (map fst rs) \<Longrightarrow> k \<notin> fst ` set rs
     \<Longrightarrow> sorted_wrt key_lt (map fst (insert_row k ob rs))"
proof (induction rs)
  case Nil
  show ?case by simp
next
  case (Cons r rs)
  have ne: "k \<noteq> fst r" and nin: "k \<notin> fst ` set rs" using Cons.prems(2) by auto
  have later: "\<And>x. x \<in> set rs \<Longrightarrow> key_lt (fst r) (fst x)"
    using Cons.prems(1) by auto
  have srt: "sorted_wrt key_lt (map fst rs)" using Cons.prems(1) by simp
  show ?case
  proof (cases "key_lt k (fst r)")
    case True
    have "\<And>x. x \<in> set rs \<Longrightarrow> key_lt k (fst x)"
      using True later key_lt_trans by blast
    then show ?thesis using True Cons.prems(1) by auto
  next
    case False
    then have rk: "key_lt (fst r) k" using ne key_lt_total by blast
    have "sorted_wrt key_lt (map fst (insert_row k ob rs))"
      using Cons.IH[OF srt nin] .
    moreover have "\<And>x. x \<in> set (insert_row k ob rs) \<Longrightarrow> key_lt (fst r) (fst x)"
      using rk later by (auto simp: set_insert_row)
    ultimately show ?thesis using False by auto
  qed
qed

lemma map_of_None_keys: "map_of rs k = None \<Longrightarrow> k \<notin> fst ` set rs"
  by (simp add: map_of_eq_None_iff)

lemma those_map_inverse:
  "(\<And>x y. x \<in> set xs \<Longrightarrow> f x = Some y \<Longrightarrow> g y = x)
     \<Longrightarrow> those (map f xs) = Some ys \<Longrightarrow> map g ys = xs"
proof (induction xs arbitrary: ys)
  case Nil
  then show ?case by simp
next
  case (Cons x xs)
  from Cons.prems(2) obtain y ys' where fx: "f x = Some y"
      and rest: "those (map f xs) = Some ys'" and ys: "ys = y # ys'"
    by (auto split: option.splits)
  have "g y = x" using Cons.prems(1) fx by simp
  moreover have "map g ys' = xs" using Cons.IH[OF _ rest] Cons.prems(1) by simp
  ultimately show ?case by (simp add: ys)
qed

lemma of_key_to_key: "to_key v = Some k \<Longrightarrow> of_key k = v"
proof (induction v arbitrary: k)
  case (Arr xs)
  from Arr.prems obtain ks where ks: "those (map to_key xs) = Some ks" and k: "k = KArr ks"
    by auto
  have "map of_key ks = xs"
    by (rule those_map_inverse[OF _ ks]) (rule Arr.IH)
  then show ?case by (simp add: k)
qed auto

lemma below_generator_mono: "below_generator g k \<Longrightarrow> g \<le> g' \<Longrightarrow> below_generator g' k"
  by (cases k) (simp_all add: below_generator_def)

lemma wf_rows_mono: "wf_rows g rs \<Longrightarrow> g \<le> g' \<Longrightarrow> wf_rows g' rs"
  using below_generator_mono by (auto simp: wf_rows_def list_all_iff)

lemma wf_rows_insert:
  "wf_rows g rs \<Longrightarrow> fld ob ''id'' = of_key k \<Longrightarrow> below_generator g k
     \<Longrightarrow> wf_rows g (insert_row k ob rs)"
  by (auto simp: wf_rows_def list_all_iff set_insert_row)

lemma bump_ge: "g \<le> bump k g"
  by (cases k) (auto simp: bump_def Let_def)

lemma below_bump: "below_generator (bump k g) k"
  by (cases k) (auto simp: bump_def below_generator_def Let_def)

lemma tbl_add_wf:
  assumes "wf_table t" and "tbl_add t ob = Inr (k, t')"
  shows "wf_table t'"
proof (cases "fld ob ''id'' = Undefined")
  case True
  let ?k = "KNum (nextKey t)"
  let ?ob = "AList.update ''id'' (Num (nextKey t)) (AList.delete ''id'' ob)"
  have room: "nextKey t \<le> generator_limit"
  proof (rule ccontr)
    assume "\<not> nextKey t \<le> generator_limit"
    then have "tbl_add t ob = Inl ConstraintError" using True by (simp add: tbl_add_def)
    with assms(2) show False by simp
  qed
  have absent: "map_of (rows t) ?k = None"
  proof (rule ccontr)
    assume "map_of (rows t) ?k \<noteq> None"
    then have "tbl_add t ob = Inl ConstraintError" using True by (simp add: tbl_add_def Let_def)
    with assms(2) show False by simp
  qed
  then have "tbl_add t ob = Inr (?k, \<lparr>rows = insert_row ?k ?ob (rows t), nextKey = nextKey t + 1\<rparr>)"
    using True room by (simp add: tbl_add_def Let_def)
  with assms(2) have t': "t' = \<lparr>rows = insert_row ?k ?ob (rows t), nextKey = nextKey t + 1\<rparr>"
    by auto
  have srt: "sorted_wrt key_lt (map fst (rows t))" and wr: "wf_rows (nextKey t) (rows t)"
    using assms(1) by (simp_all add: wf_table_def)
  have s: "sorted_wrt key_lt (map fst (insert_row ?k ?ob (rows t)))"
    using srt map_of_None_keys[OF absent] by (rule sorted_insert_row)
  have "wf_rows (nextKey t + 1) (rows t)"
    using wr by (rule wf_rows_mono) simp
  then have "wf_rows (nextKey t + 1) (insert_row ?k ?ob (rows t))"
    using room by (intro wf_rows_insert) (simp_all add: fld_update below_generator_def)
  with s show ?thesis by (simp add: t' wf_table_def)
next
  case False
  obtain k' where key: "to_key (fld ob ''id'') = Some k'"
  proof (cases "to_key (fld ob ''id'')")
    case None
    then have "tbl_add t ob = Inl DataError" using False by (simp add: tbl_add_def)
    with assms(2) show ?thesis by simp
  next
    case (Some a)
    then show ?thesis using that by simp
  qed
  have absent: "map_of (rows t) k' = None"
  proof (rule ccontr)
    assume "map_of (rows t) k' \<noteq> None"
    then have "tbl_add t ob = Inl ConstraintError" using False key by (simp add: tbl_add_def)
    with assms(2) show False by simp
  qed
  then have "tbl_add t ob = Inr (k', \<lparr>rows = insert_row k' ob (rows t), nextKey = bump k' (nextKey t)\<rparr>)"
    using False key by (simp add: tbl_add_def)
  with assms(2) have t': "t' = \<lparr>rows = insert_row k' ob (rows t), nextKey = bump k' (nextKey t)\<rparr>"
    by auto
  have srt: "sorted_wrt key_lt (map fst (rows t))" and wr: "wf_rows (nextKey t) (rows t)"
    using assms(1) by (simp_all add: wf_table_def)
  have s: "sorted_wrt key_lt (map fst (insert_row k' ob (rows t)))"
    using srt map_of_None_keys[OF absent] by (rule sorted_insert_row)
  have "wf_rows (bump k' (nextKey t)) (rows t)"
    using wr bump_ge by (rule wf_rows_mono)
  then have "wf_rows (bump k' (nextKey t)) (insert_row k' ob (rows t))"
    using of_key_to_key[OF key] by (intro wf_rows_insert) (simp_all add: below_bump)
  with s show ?thesis by (simp add: t' wf_table_def)
qed

lemma bulkAdd_wf: "wf_table t \<Longrightarrow> bulkAdd t obs = Inr t' \<Longrightarrow> wf_table t'"
proof (induction obs arbitrary: t)
  case Nil
  then show ?case by simp
next
  case (Cons ob obs)
  show ?case
  proof (cases "tbl_add t ob")
    case (Inl e)
    with Cons.prems(2) show ?thesis by simp
  next
    case (Inr p)
    obtain k t1 where p: "p = (k, t1)" by (cases p)
    have b: "bulkAdd t1 obs = Inr t'" using Cons.prems(2) Inr p by simp
    have "wf_table t1" using tbl_add_wf[OF Cons.prems(1)] Inr p by simp
    then show ?thesis using Cons.IH b by blast
  qed
qed

lemma tbl_clear_wf: "wf_table t \<Longrightarrow> wf_table (tbl_clear t)"
  by (simp add: wf_table_def tbl_clear_def wf_rows_def)

lemma sorted_wrt_map_filter:
  "sorted_wrt P (map f xs) \<Longrightarrow> sorted_wrt P (map f (filter Q xs))"
  by (induction xs) auto

lemma wf_rows_filter: "wf_rows g rs \<Longrightarrow> wf_rows g (filter Q rs)"
  by (simp add: wf_rows_def list_all_iff)

lemma tbl_delete_wf: "wf_table t \<Longrightarrow> wf_table (tbl_delete t k)"
  by (simp add: wf_table_def tbl_delete_def sorted_wrt_map_filter wf_rows_filter)

lemma map_fst_replace_row: "map fst (replace_row k ob rs) = map fst rs"
  by (induction rs) (simp_all add: replace_row_def)

lemma wf_rows_replace:
  "wf_rows g rs \<Longrightarrow> fld ob ''id'' = of_key k \<Longrightarrow> wf_rows g (replace_row k ob rs)"
  by (induction rs) (auto simp: wf_rows_def replace_row_def)

lemma wf_row_id:
  assumes "wf_table t" and "map_of (rows t) k = Some ob"
  shows "fld ob ''id'' = of_key k"
proof -
  have "(k, ob) \<in> set (rows t)" using assms(2) by (rule map_of_SomeD)
  moreover have "\<forall>r \<in> set (rows t). fld (snd r) ''id'' = of_key (fst r)"
    using assms(1) by (simp add: wf_table_def wf_rows_def list_all_iff)
  ultimately show ?thesis by fastforce
qed

lemma tbl_update_wf:
  assumes "wf_table t" and "tbl_update t k patch = Inr t'"
  shows "wf_table t'"
proof (cases "map_of (rows t) k")
  case None
  with assms show ?thesis by (simp add: tbl_update_def)
next
  case (Some ob)
  show ?thesis
  proof (cases "fld (apply_patch patch ob) ''id'' = fld ob ''id''")
    case True
    then have t': "t' = t\<lparr>rows := replace_row k (apply_patch patch ob) (rows t)\<rparr>"
      using assms(2) Some by (simp add: tbl_update_def)
    have "fld (apply_patch patch ob) ''id'' = of_key k"
      using True wf_row_id[OF assms(1) Some] by simp
    then have "wf_rows (nextKey t) (replace_row k (apply_patch patch ob) (rows t))"
      using assms(1) by (intro wf_rows_replace) (simp_all add: wf_table_def)
    then show ?thesis using assms(1) by (simp add: t' wf_table_def map_fst_replace_row)
  next
    case False
    then obtain k' where "tbl_add (tbl_delete t k) (apply_patch patch ob) = Inr (k', t')"
      using assms(2) Some by (auto simp: tbl_update_def split: sum.splits)
    then show ?thesis using tbl_add_wf tbl_delete_wf[OF assms(1)] by blast
  qed
qed

lemma wf_store_upd: "wf_store s \<Longrightarrow> wf_table t \<Longrightarrow> wf_store (s(c := t))"
  by (intro wf_storeI) (simp add: wf_storeD)

lemma wf_empty_store: "wf_store empty_store"
  by (simp add: wf_store_def empty_store_def empty_table_def wf_table_def wf_rows_def all_colls_def)

lemma add_record_wf:
  assumes "wf_store s"
  shows "wf_store (snd (add_record c rec s))"
proof (cases "tbl_add (s c) rec")
  case (Inl e)
  then show ?thesis using assms by (simp add: add_record_def)
next
  case (Inr p)
  obtain k t' where p: "p = (k, t')" by (cases p)
  have "wf_table t'"
    using tbl_add_wf[OF wf_storeD[OF assms]] Inr p by simp
  then show ?thesis using assms by (simp add: add_record_def Inr p wf_store_upd)
qed

lemma update_record_wf:
  assumes "wf_store s"
  shows "wf_store (snd (update_record c k patch s))"
proof (cases "tbl_update (s c) k patch")
  case (Inl e)
  then show ?thesis using assms by (simp add: update_record_def)
next
  case (Inr t')
  have "wf_table t'"
    using tbl_update_wf[OF wf_storeD[OF assms]] Inr by simp
  then show ?thesis using assms by (simp add: update_record_def Inr wf_store_upd)
qed

lemma modify_record_wf: "wf_store s \<Longrightarrow> wf_store (snd (modify_record c k patch_of s))"
  by (cases "tbl_get (s c) k") (simp_all add: modify_record_def update_record_wf)

lemma clearAllData_wf: "wf_store s \<Longrightarrow> wf_store (snd (clearAllData s))"
  by (intro wf_storeI) (simp add: clearAllData_eq tbl_clear_wf wf_storeD)

lemma import_coll_wf:
  assumes "wf_store s" and "import_coll data c s = Inr s1"
  shows "wf_store s1"
proof (cases "data c")
  case None
  then show ?thesis using assms by (simp add: import_coll_def)
next
  case (Some obs)
  then obtain t' where b: "bulkAdd (s c) obs = Inr t'" and s1: "s1 = s(c := t')"
    using assms(2) by (cases "bulkAdd (s c) obs") (simp_all add: import_coll_def)
  have "wf_table t'" using bulkAdd_wf[OF wf_storeD[OF assms(1)] b] .
  then show ?thesis using assms(1) by (simp add: s1 wf_store_upd)
qed

lemma import_colls_wf: "wf_store s \<Longrightarrow> import_colls data cs s = Inr s' \<Longrightarrow> wf_store s'"
proof (induction cs arbitrary: s)
  case Nil
  then show ?case by simp
next
  case (Cons c cs)
  from Cons.prems(2) obtain s1 where a: "import_coll data c s = Inr s1"
      and b: "import_colls data cs s1 = Inr s'"
    by (cases "import_coll data c s") simp_all
  have "wf_store s1" using import_coll_wf[OF Cons.prems(1) a] .
  then show ?case using Cons.IH b by blast
qed

lemma importData_wf: "wf_store s \<Longrightarrow> wf_store (snd (importData data s))"
  by (cases "import_colls data all_colls s") (simp_all add: importData_def import_colls_wf)

lemma deleteEmergency_wf: "wf_store s \<Longrightarrow> wf_store (snd (deleteEmergency k s))"
  by (simp add: deleteEmergency_def wf_store_upd tbl_delete_wf wf_storeD)

lemma add_body_parts_wf: "wf_store s \<Longrightarrow> wf_store (snd (add_body_parts clock i bps s))"
proof (induction bps arbitrary: s i)
  case Nil
  then show ?case by simp
next
  case (Cons bp bps)
  let ?now = "clock (i + length (symptoms bp))"
  obtain r s1 where a: "addEmergency ?now (emergencyDataItem clock i bp) s = (r, s1)"
    by (cases "addEmergency ?now (emergencyDataItem clock i bp) s")
  have "wf_store (snd (addEmergency ?now (emergencyDataItem clock i bp) s))"
    unfolding addEmergency_def using Cons.prems by (rule add_record_wf)
  then have "wf_store s1" by (simp add: a)
  then show ?case using Cons.IH[of s1] a by (cases r) simp_all
qed

lemma loadInitialEmergencyData_wf:
  "wf_store s \<Longrightarrow> wf_store (snd (loadInitialEmergencyData fetched clock s))"
  by (cases fetched)
     (simp_all add: loadInitialEmergencyData_def getAllEmergencies_def get_all_def add_body_parts_wf)

lemma resetAndReloadData_wf: "wf_store s \<Longrightarrow> wf_store (snd (resetAndReloadData fetched clock s))"
  using loadInitialEmergencyData_wf[OF clearAllData_wf, of s fetched clock]
  by (simp add: resetAndReloadData_def loadAllInitialData_def clearAllData_eq)

section \<open>Index order\<close>

lemma key_lt_negtrans: "key_lt a c \<Longrightarrow> key_lt a b \<or> key_lt b c"
  using key_lt_total[of a b] key_lt_trans by blast

lemma entry_lt_asym: "entry_lt a b \<Longrightarrow> \<not> entry_lt b a"
  unfolding entry_lt_def using key_lt_asym key_lt_irrefl by metis

lemma entry_lt_negtrans: "entry_lt a c \<Longrightarrow> entry_lt a b \<or> entry_lt b c"
  unfolding entry_lt_def using key_lt_negtrans key_lt_total by metis

lemma set_ins_by: "set (ins_by lt x ys) = insert x (set ys)"
  by (induction ys) auto

lemma mset_ins_by: "mset (ins_by lt x ys) = add_mset x (mset ys)"
  by (induction ys) auto

lemma mset_isort_by: "mset (isort_by lt xs) = mset xs"
  by (induction xs) (simp_all add: mset_ins_by)

lemma set_isort_by: "set (isort_by lt xs) = set xs"
  by (induction xs) (simp_all add: set_ins_by)

lemma sorted_ins_by:
  assumes asym: "\<And>a b. lt a b \<Longrightarrow> \<not> lt b a"
    and negtrans: "\<And>a b c. lt a c \<Longrightarrow> lt a b \<or> lt b c"
  shows "sorted_wrt (\<lambda>a b. \<not> lt b a) ys \<Longrightarrow> sorted_wrt (\<lambda>a b. \<not> lt b a) (ins_by lt x ys)"
proof (induction ys)
  case Nil
  show ?case by simp
next
  case (Cons y ys)
  have tail: "\<And>z. z \<in> set ys \<Longrightarrow> \<not> lt z y" and srt: "sorted_wrt (\<lambda>a b. \<not> lt b a) ys"
    using Cons.prems by simp_all
  show ?case
  proof (cases "lt y x")
    case True
    have "\<not> lt x y" using True by (rule asym)
    then have "\<And>z. z \<in> set (ins_by lt x ys) \<Longrightarrow> \<not> lt z y"
      using tail by (auto simp: set_ins_by)
    then show ?thesis using True Cons.IH[OF srt] by simp
  next
    case False
    have "\<And>z. z \<in> set ys \<Longrightarrow> \<not> lt z x"
      using tail False negtrans by blast
    then show ?thesis using False Cons.prems by simp
  qed
qed

lemma sorted_isort_by:
  assumes "\<And>a b. lt a b \<Longrightarrow> \<not> lt b a"
    and "\<And>a b c. lt a c \<Longrightarrow> lt a b \<or> lt b c"
  shows "sorted_wrt (\<lambda>a b. \<not> lt b a) (isort_by lt xs)"
proof (induction xs)
  case Nil
  show ?case by simp
next
  case (Cons x xs)
  show ?case using sorted_ins_by[of lt, OF assms Cons.IH] by simp
qed

lemma indexable_key: "e \<in> set (indexable f rs) \<Longrightarrow> to_key (fld (snd (snd e)) f) = Some (fst e)"
  by (induction rs) (auto split: option.splits)

lemma map_indexable:
  "map (\<lambda>e. snd (snd e)) (indexable f rs) = filter (has_key f) (map snd rs)"
  by (induction rs) (auto simp: has_key_def split: option.splits)

lemma orderBy_reverse_sorted: "sorted_wrt (desc_by f) (tbl_orderBy_reverse f t)"
proof -
  let ?es = "index_entries f t"
  have s: "sorted_wrt (\<lambda>a b. \<not> entry_lt b a) ?es"
    unfolding index_entries_def by (rule sorted_isort_by) (fact entry_lt_asym entry_lt_negtrans)+
  have k: "\<And>e. e \<in> set ?es \<Longrightarrow> to_key (fld (snd (snd e)) f) = Some (fst e)"
    by (simp add: index_entries_def set_isort_by indexable_key)
  have "sorted_wrt (\<lambda>b a. desc_by f (snd (snd a)) (snd (snd b))) ?es"
  proof (rule sorted_wrt_mono_rel[OF _ s])
    fix a b assume "a \<in> set ?es" "b \<in> set ?es" "\<not> entry_lt b a"
    then show "desc_by f (snd (snd b)) (snd (snd a))"
      using k[of a] k[of b] by (auto simp: desc_by_def entry_lt_def)
  qed
  then show ?thesis
    by (simp add: tbl_orderBy_reverse_def sorted_wrt_rev sorted_wrt_map)
qed

lemma orderBy_reverse_mset:
  "mset (tbl_orderBy_reverse f t) = mset (filter (has_key f) (tbl_toArray t))"
proof -
  have "mset (map (\<lambda>e. snd (snd e)) (index_entries f t))
          = mset (map (\<lambda>e. snd (snd e)) (indexable f (rows t)))"
    unfolding index_entries_def mset_map by (simp only: mset_isort_by)
  then show ?thesis
    by (simp add: tbl_orderBy_reverse_def map_indexable tbl_toArray_def)
qed

lemma getAllContacts_three: "getAllContacts three_contacts = (Inr [cyd, ann], three_contacts)"
  by (simp add: getAllContacts_def get_all_def tbl_orderBy_reverse_def index_entries_def
        three_contacts_def ann_def bob_def cyd_def fld_def entry_lt_def)

section \<open>Effect of an update on the stored records\<close>

lemma tbl_get_empty: "tbl_get (empty_store c) k = None"
  by (simp add: empty_store_def empty_table_def tbl_get_def)

lemma tbl_get_replace_other:
  "k' \<noteq> k \<Longrightarrow> tbl_get (t\<lparr>rows := replace_row k ob (rows t)\<rparr>) k' = tbl_get t k'"
  by (simp add: tbl_get_def map_of_replace_row)

lemma update_record_effect:
  assumes "tbl_get (s c) k = Some ob" and "''id'' \<notin> fst ` set patch"
    and "r = update_record c k patch s"
  shows "fst r = Inr (Some (apply_patch patch ob))
       \<and> tbl_get (snd r c) k = Some (apply_patch patch ob)
       \<and> (\<forall>c' k'. (c', k') \<noteq> (c, k) \<longrightarrow> tbl_get (snd r c') k' = tbl_get (s c') k')"
proof -
  have r: "r = (Inr (Some (apply_patch patch ob)),
            s(c := (s c)\<lparr>rows := replace_row k (apply_patch patch ob) (rows (s c))\<rparr>))"
    using assms by (simp add: update_record_present)
  have a: "tbl_get (snd r c) k = Some (apply_patch patch ob)"
    using assms(1) by (simp add: r tbl_get_def map_of_replace_row)
  have b: "tbl_get (snd r c') k' = tbl_get (s c') k'" if "(c', k') \<noteq> (c, k)" for c' k'
    using that by (cases "c' = c") (simp_all add: r tbl_get_replace_other)
  show ?thesis using a b by (simp add: r)
qed

lemma modify_record_effect:
  assumes "tbl_get (s c) k = Some ob" and "''id'' \<notin> fst ` set (patch_of ob)"
    and "r = modify_record c k patch_of s"
  shows "fst r = Inr (Some (apply_patch (patch_of ob) ob))
       \<and> tbl_get (snd r c) k = Some (apply_patch (patch_of ob) ob)
       \<and> (\<forall>c' k'. (c', k') \<noteq> (c, k) \<longrightarrow> tbl_get (snd r c') k' = tbl_get (s c') k')"
proof -
  have "r = update_record c k (patch_of ob) s"
    using assms(1,3) by (simp add: modify_record_def)
  then show ?thesis
    using assms(1,2)
      update_record_effect[where s=s and c=c and k=k and ob=ob and patch="patch_of ob" and r=r]
    by simp
qed

lemma update_keeps_createdAt:
  assumes "tbl_get (s c) k = Some ob" and "r = update_record c k patch s"
    and "''id'' \<notin> fst ` set patch" and "''createdAt'' \<notin> fst ` set patch"
    and "stamped \<longrightarrow> fld (apply_patch patch ob) ''updatedAt'' = Str now"
  shows "\<exists>ob'. fst r = Inr (Some ob') \<and> tbl_get (snd r c) k = Some ob'
           \<and> fld ob' ''createdAt'' = fld ob ''createdAt''
           \<and> (stamped \<longrightarrow> fld ob' ''updatedAt'' = Str now)
           \<and> (\<forall>c' k'. (c', k') \<noteq> (c, k) \<longrightarrow> tbl_get (snd r c') k' = tbl_get (s c') k')"
  using update_record_effect[where s=s and c=c and k=k and ob=ob and patch=patch and r=r]
    assms(1,2,3) fld_apply_patch_other[OF assms(4), of ob] assms(5)
  by simp

lemma modify_keeps_createdAt:
  assumes "tbl_get (s c) k = Some ob" and "r = modify_record c k patch_of s"
    and "''id'' \<notin> fst ` set (patch_of ob)" and "''createdAt'' \<notin> fst ` set (patch_of ob)"
    and "stamped \<longrightarrow> fld (apply_patch (patch_of ob) ob) ''updatedAt'' = Str now"
  shows "\<exists>ob'. fst r = Inr (Some ob') \<and> tbl_get (snd r c) k = Some ob'
           \<and> fld ob' ''createdAt'' = fld ob ''createdAt''
           \<and> (stamped \<longrightarrow> fld ob' ''updatedAt'' = Str now)
           \<and> (\<forall>c' k'. (c', k') \<noteq> (c, k) \<longrightarrow> tbl_get (snd r c') k' = tbl_get (s c') k')"
proof -
  have "r = update_record c k (patch_of ob) s"
    using assms(1,2) by (simp add: modify_record_def)
  then show ?thesis
    using assms(1,3,4,5)
    by (intro update_keeps_createdAt[where s=s and c=c and k=k and ob=ob and patch="patch_of ob"])
qed

section \<open>Adding records, and what the validators report\<close>

lemma map_of_insert_row_new:
  "k \<notin> fst ` set rs \<Longrightarrow> map_of (insert_row k ob rs) k = Some ob"
  by (induction rs) auto

lemma map_of_insert_row_other:
  "k' \<noteq> k \<Longrightarrow> map_of (insert_row k ob rs) k' = map_of rs k'"
  by (induction rs) auto

lemma generator_key_fresh:
  assumes "wf_table t" and "nextKey t \<le> generator_limit"
  shows "map_of (rows t) (KNum (nextKey t)) = None"
proof (rule map_of_absent, rule notI)
  assume "KNum (nextKey t) \<in> fst ` set (rows t)"
  then obtain r where r: "r \<in> set (rows t)" "fst r = KNum (nextKey t)" by auto
  have "\<forall>r \<in> set (rows t). below_generator (nextKey t) (fst r)"
    using assms(1) by (simp add: wf_table_def wf_rows_def list_all_iff)
  with r have "min (nextKey t) generator_limit < nextKey t"
    by (auto simp: below_generator_def)
  with assms(2) show False by simp
qed

lemma add_record_stores:
  assumes "wf_store s" and "fld rec ''id'' = Undefined" and "nextKey (s c) \<le> generator_limit"
    and "r = add_record c rec s"
  shows "fst r = Inr ((''id'', Num (nextKey (s c))) # AList.delete ''id'' rec)
       \<and> tbl_get (s c) (KNum (nextKey (s c))) = None
       \<and> tbl_get (snd r c) (KNum (nextKey (s c)))
            = Some (AList.update ''id'' (Num (nextKey (s c))) (AList.delete ''id'' rec))
       \<and> (\<forall>c' k'. (c', k') \<noteq> (c, KNum (nextKey (s c)))
              \<longrightarrow> tbl_get (snd r c') k' = tbl_get (s c') k')"
proof -
  let ?g = "nextKey (s c)"
  let ?ob = "AList.update ''id'' (Num ?g) (AList.delete ''id'' rec)"
  let ?t = "\<lparr>rows = insert_row (KNum ?g) ?ob (rows (s c)), nextKey = ?g + 1\<rparr>"
  have fresh: "map_of (rows (s c)) (KNum ?g) = None"
    using wf_storeD[OF assms(1)] assms(3) by (rule generator_key_fresh)
  then have add: "tbl_add (s c) rec = Inr (KNum ?g, ?t)"
    using assms(2,3) by (simp add: tbl_add_def Let_def)
  have r: "r = (Inr ((''id'', Num ?g) # AList.delete ''id'' rec), s(c := ?t))"
    by (simp add: assms(4) add_record_def add)
  have new: "map_of (insert_row (KNum ?g) ?ob (rows (s c))) (KNum ?g) = Some ?ob"
    using map_of_None_keys[OF fresh] by (rule map_of_insert_row_new)
  have frame: "tbl_get (snd r c') k' = tbl_get (s c') k'" if "(c', k') \<noteq> (c, KNum ?g)" for c' k'
    using that by (cases "c' = c") (simp_all add: r tbl_get_def map_of_insert_row_other)
  show ?thesis
    using fresh new frame by (simp add: r tbl_get_def)
qed

lemma add_record_exhausted:
  assumes "fld rec ''id'' = Undefined" and "generator_limit < nextKey (s c)"
  shows "add_record c rec s = (Inl ConstraintError, s)"
  using assms by (simp add: add_record_def tbl_add_def)

lemma validator_reports:
  assumes "v = (case is_blank x of Inl e \<Rightarrow> Inl e | Inr b \<Rightarrow> Inr (pre b @ push_if True msg @ post))"
  shows "v \<noteq> Inr [] \<and> (\<forall>errs. v = Inr errs \<longrightarrow> msg \<in> set errs)"
  using assms by (cases "is_blank x") (auto simp: push_if_def)

lemma rel_case:
  assumes "\<not> validateEnum (fld d ''relationship'') CONTACT_RELATIONSHIPS" and "wf_store s" and "fld d ''id'' = Undefined"
    and "nextKey (s Contacts) \<le> generator_limit"
  shows "validateContactData d \<noteq> Inr [] \<and> (\<forall>errs. validateContactData d = Inr errs \<longrightarrow> ''Invalid relationship'' \<in> set errs)
       \<and> fld (AList.update ''updatedAt'' (Str now) (AList.update ''createdAt'' (Str now) d)) ''relationship'' = fld d ''relationship''
       \<and> fst (addContact now d s)
            = Inr ((''id'', Num (nextKey (s Contacts))) # AList.delete ''id'' (AList.update ''updatedAt'' (Str now) (AList.update ''createdAt'' (Str now) d)))
       \<and> tbl_get (s Contacts) (KNum (nextKey (s Contacts))) = None
       \<and> tbl_get (snd (addContact now d s) Contacts) (KNum (nextKey (s Contacts)))
            = Some (AList.update ''id'' (Num (nextKey (s Contacts)))
                      (AList.delete ''id'' (AList.update ''updatedAt'' (Str now) (AList.update ''createdAt'' (Str now) d))))
       \<and> (\<forall>c' k'. (c', k') \<noteq> (Contacts, KNum (nextKey (s Contacts)))
              \<longrightarrow> tbl_get (snd (addContact now d s) c') k' = tbl_get (s c') k')"
proof -
  have v: "validateContactData d \<noteq> Inr [] \<and> (\<forall>errs. validateContactData d = Inr errs \<longrightarrow> ''Invalid relationship'' \<in> set errs)"
    by (rule validator_reports[where x = "fld d ''name''"
          and pre = "\<lambda>b. push_if b ''Name is required''"
          and post = "push_if (\<not> validateEnum (fld d ''gender'') CONTACT_GENDER) ''Invalid gender''"])
       (use assms(1) in \<open>simp add: validateContactData_def split: sum.splits\<close>)
  have f: "fld (AList.update ''updatedAt'' (Str now) (AList.update ''createdAt'' (Str now) d)) ''relationship'' = fld d ''relationship''"
    by (simp add: fld_update)
  have i: "fld (AList.update ''updatedAt'' (Str now) (AList.update ''createdAt'' (Str now) d)) ''id'' = Undefined"
    using assms(3) by (simp add: fld_update)
  have a: "addContact now d s = add_record Contacts (AList.update ''updatedAt'' (Str now) (AList.update ''createdAt'' (Str now) d)) s"
    by (simp add: addContact_def)
  show ?thesis
    using v f add_record_stores[OF assms(2) i assms(4) a] by simp
qed

lemma gen_case:
  assumes "\<not> validateEnum (fld d ''gender'') CONTACT_GENDER" and "wf_store s" and "fld d ''id'' = Undefined"
    and "nextKey (s Contacts) \<le> generator_limit"
  shows "validateContactData d \<noteq> Inr [] \<and> (\<forall>errs. validateContactData d = Inr errs \<longrightarrow> ''Invalid gender'' \<in> set errs)
       \<and> fld (AList.update ''updatedAt'' (Str now) (AList.update ''createdAt'' (Str now) d)) ''gender'' = fld d ''gender''
       \<and> fst (addContact now d s)
            = Inr ((''id'', Num (nextKey (s Contacts))) # AList.delete ''id'' (AList.update ''updatedAt'' (Str now) (AList.update ''createdAt'' (Str now) d)))
       \<and> tbl_get (s Contacts) (KNum (nextKey (s Contacts))) = None
       \<and> tbl_get (snd (addContact now d s) Contacts) (KNum (nextKey (s Contacts)))
            = Some (AList.update ''id'' (Num (nextKey (s Contacts)))
                      (AList.delete ''id'' (AList.update ''updatedAt'' (Str now) (AList.update ''createdAt'' (Str now) d))))
       \<and> (\<forall>c' k'. (c', k') \<noteq> (Contacts, KNum (nextKey (s Contacts)))
              \<longrightarrow> tbl_get (snd (addContact now d s) c') k' = tbl_get (s c') k')"
proof -
  have v: "validateContactData d \<noteq> Inr [] \<and> (\<forall>errs. validateContactData d = Inr errs \<longrightarrow> ''Invalid gender'' \<in> set errs)"
    by (rule validator_reports[where x = "fld d ''name''"
          and pre = "\<lambda>b. push_if b ''Name is required'' @ push_if (\<not> validateEnum (fld d ''relationship'') CONTACT_RELATIONSHIPS) ''Invalid relationship''"
          and post = "[]"])
       (use assms(1) in \<open>simp add: validateContactData_def split: sum.splits\<close>)
  have f: "fld (AList.update ''updatedAt'' (Str now) (AList.update ''createdAt'' (Str now) d)) ''gender'' = fld d ''gender''"
    by (simp add: fld_update)
  have i: "fld (AList.update ''updatedAt'' (Str now) (AList.update ''createdAt'' (Str now) d)) ''id'' = Undefined"
    using assms(3) by (simp add: fld_update)
  have a: "addContact now d s = add_record Contacts (AList.update ''updatedAt'' (Str now) (AList.update ''createdAt'' (Str now) d)) s"
    by (simp add: addContact_def)
  show ?thesis
    using v f add_record_stores[OF assms(2) i assms(4) a] by simp
qed

lemma food_case:
  assumes "\<not> validateEnum (fld d ''category'') FOOD_CATEGORIES" and "wf_store s" and "fld d ''id'' = Undefined"
    and "nextKey (s Foods) \<le> generator_limit"
  shows "validateFoodData d \<noteq> Inr [] \<and> (\<forall>errs. validateFoodData d = Inr errs \<longrightarrow> ''Invalid category'' \<in> set errs)
       \<and> fld (AList.update ''createdAt'' (Str now) d) ''category'' = fld d ''category''
       \<and> fst (addFood now d s)
            = Inr ((''id'', Num (nextKey (s Foods))) # AList.delete ''id'' (AList.update ''createdAt'' (Str now) d))
       \<and> tbl_get (s Foods) (KNum (nextKey (s Foods))) = None
       \<and> tbl_get (snd (addFood now d s) Foods) (KNum (nextKey (s Foods)))
            = Some (AList.update ''id'' (Num (nextKey (s Foods)))
                      (AList.delete ''id'' (AList.update ''createdAt'' (Str now) d)))
       \<and> (\<forall>c' k'. (c', k') \<noteq> (Foods, KNum (nextKey (s Foods)))
              \<longrightarrow> tbl_get (snd (addFood now d s) c') k' = tbl_get (s c') k')"
proof -
  have v: "validateFoodData d \<noteq> Inr [] \<and> (\<forall>errs. validateFoodData d = Inr errs \<longrightarrow> ''Invalid category'' \<in> set errs)"
    by (rule validator_reports[where x = "fld d ''name''"
          and pre = "\<lambda>b. push_if b ''Name is required''"
          and post = "[]"])
       (use assms(1) in \<open>simp add: validateFoodData_def split: sum.splits\<close>)
  have f: "fld (AList.update ''createdAt'' (Str now) d) ''category'' = fld d ''category''"
    by (simp add: fld_update)
  have i: "fld (AList.update ''createdAt'' (Str now) d) ''id'' = Undefined"
    using assms(3) by (simp add: fld_update)
  have a: "addFood now d s = add_record Foods (AList.update ''createdAt'' (Str now) d) s"
    by (simp add: addFood_def)
  show ?thesis
    using v f add_record_stores[OF assms(2) i assms(4) a] by simp
qed

lemma phrase_case:
  assumes "\<not> validateEnum (fld d ''category'') PHRASE_CATEGORIES" and "wf_store s" and "fld d ''id'' = Undefined"
    and "nextKey (s Phrases) \<le> generator_limit"
  shows "validatePhraseData d \<noteq> Inr [] \<and> (\<forall>errs. validatePhraseData d = Inr errs \<longrightarrow> ''Invalid category'' \<in> set errs)
       \<and> fld (AList.update ''updatedAt'' (Str now) (AList.update ''createdAt'' (Str now) d)) ''category'' = fld d ''category''
       \<and> fst (addPhrase now d s)
            = Inr ((''id'', Num (nextKey (s Phrases))) # AList.delete ''id'' (AList.update ''updatedAt'' (Str now) (AList.update ''createdAt'' (Str now) d)))
       \<and> tbl_get (s Phrases) (KNum (nextKey (s Phrases))) = None
       \<and> tbl_get (snd (addPhrase now d s) Phrases) (KNum (nextKey (s Phrases)))
            = Some (AList.update ''id'' (Num (nextKey (s Phrases)))
                      (AList.delete ''id'' (AList.update ''updatedAt'' (Str now) (AList.update ''createdAt'' (Str now) d))))
       \<and> (\<forall>c' k'. (c', k') \<noteq> (Phrases, KNum (nextKey (s Phrases)))
              \<longrightarrow> tbl_get (snd (addPhrase now d s) c') k' = tbl_get (s c') k')"
proof -
  have v: "validatePhraseData d \<noteq> Inr [] \<and> (\<forall>errs. validatePhraseData d = Inr errs \<longrightarrow> ''Invalid category'' \<in> set errs)"
    by (rule validator_reports[where x = "fld d ''text''"
          and pre = "\<lambda>b. push_if b ''Text is required''"
          and post = "[]"])
       (use assms(1) in \<open>simp add: validatePhraseData_def split: sum.splits\<close>)
  have f: "fld (AList.update ''updatedAt'' (Str now) (AList.update ''createdAt'' (Str now) d)) ''category'' = fld d ''category''"
    by (simp add: fld_update)
  have i: "fld (AList.update ''updatedAt'' (Str now) (AList.update ''createdAt'' (Str now) d)) ''id'' = Undefined"
    using assms(3) by (simp add: fld_update)
  have a: "addPhrase now d s = add_record Phrases (AList.update ''updatedAt'' (Str now) (AList.update ''createdAt'' (Str now) d)) s"
    by (simp add: addPhrase_def)
  show ?thesis
    using v f add_record_stores[OF assms(2) i assms(4) a] by simp
qed

lemma order_case:
  assumes "\<not> validateEnum (fld d ''status'') ORDER_STATUS" and "wf_store s" and "fld d ''id'' = Undefined"
    and "nextKey (s Orders) \<le> generator_limit"
  shows "validateOrderData d \<noteq> Inr [] \<and> (\<forall>errs. validateOrderData d = Inr errs \<longrightarrow> ''Invalid status'' \<in> set errs)
       \<and> fld (AList.update ''updatedAt'' (Str now) (AList.update ''createdAt'' (Str now) d)) ''status'' = fld d ''status''
       \<and> fst (addOrder now d s)
            = Inr ((''id'', Num (nextKey (s Orders))) # AList.delete ''id'' (AList.update ''updatedAt'' (Str now) (AList.update ''createdAt'' (Str now) d)))
       \<and> tbl_get (s Orders) (KNum (nextKey (s Orders))) = None
       \<and> tbl_get (snd (addOrder now d s) Orders) (KNum (nextKey (s Orders)))
            = Some (AList.update ''id'' (Num (nextKey (s Orders)))
                      (AList.delete ''id'' (AList.update ''updatedAt'' (Str now) (AList.update ''createdAt'' (Str now) d))))
       \<and> (\<forall>c' k'. (c', k') \<noteq> (Orders, KNum (nextKey (s Orders)))
              \<longrightarrow> tbl_get (snd (addOrder now d s) c') k' = tbl_get (s c') k')"
proof -
  have v: "validateOrderData d \<noteq> Inr [] \<and> (\<forall>errs. validateOrderData d = Inr errs \<longrightarrow> ''Invalid status'' \<in> set errs)"
    by (rule validator_reports[where x = "fld d ''orderNumber''"
          and pre = "\<lambda>b. push_if b ''Order number is required''"
          and post = "[]"])
       (use assms(1) in \<open>simp add: validateOrderData_def split: sum.splits\<close>)
  have f: "fld (AList.update ''updatedAt'' (Str now) (AList.update ''createdAt'' (Str now) d)) ''status'' = fld d ''status''"
    by (simp add: fld_update)
  have i: "fld (AList.update ''updatedAt'' (Str now) (AList.update ''createdAt'' (Str now) d)) ''id'' = Undefined"
    using assms(3) by (simp add: fld_update)
  have a: "addOrder now d s = add_record Orders (AList.update ''updatedAt'' (Str now) (AList.update ''createdAt'' (Str now) d)) s"
    by (simp add: addOrder_def)
  show ?thesis
    using v f add_record_stores[OF assms(2) i assms(4) a] by simp
qed

lemma activity_case:
  assumes "\<not> validateEnum (fld d ''category'') ACTIVITY_CATEGORIES" and "wf_store s" and "fld d ''id'' = Undefined"
    and "nextKey (s Activities) \<le> generator_limit"
  shows "validateActivityData d \<noteq> Inr [] \<and> (\<forall>errs. validateActivityData d = Inr errs \<longrightarrow> ''Invalid category'' \<in> set errs)
       \<and> fld (AList.update ''createdAt'' (Str now) d) ''category'' = fld d ''category''
       \<and> fst (addActivity now d s)
            = Inr ((''id'', Num (nextKey (s Activities))) # AList.delete ''id'' (AList.update ''createdAt'' (Str now) d))
       \<and> tbl_get (s Activities) (KNum (nextKey (s Activities))) = None
       \<and> tbl_get (snd (addActivity now d s) Activities) (KNum (nextKey (s Activities)))
            = Some (AList.update ''id'' (Num (nextKey (s Activities)))
                      (AList.delete ''id'' (AList.update ''createdAt'' (Str now) d)))
       \<and> (\<forall>c' k'. (c', k') \<noteq> (Activities, KNum (nextKey (s Activities)))
              \<longrightarrow> tbl_get (snd (addActivity now d s) c') k' = tbl_get (s c') k')"
proof -
  have v: "validateActivityData d \<noteq> Inr [] \<and> (\<forall>errs. validateActivityData d = Inr errs \<longrightarrow> ''Invalid category'' \<in> set errs)"
    by (rule validator_reports[where x = "fld d ''name''"
          and pre = "\<lambda>b. push_if b ''Name is required''"
          and post = "push_if (truthy (fld d ''isRecurring'') \<and> \<not> validateEnum (fld d ''frequency'') ACTIVITY_FREQUENCY) ''Invalid frequency''"])
       (use assms(1) in \<open>simp add: validateActivityData_def split: sum.splits\<close>)
  have f: "fld (AList.update ''createdAt'' (Str now) d) ''category'' = fld d ''category''"
    by (simp add: fld_update)
  have i: "fld (AList.update ''createdAt'' (Str now) d) ''id'' = Undefined"
    using assms(3) by (simp add: fld_update)
  have a: "addActivity now d s = add_record Activities (AList.update ''createdAt'' (Str now) d) s"
    by (simp add: addActivity_def)
  show ?thesis
    using v f add_record_stores[OF assms(2) i assms(4) a] by simp
qed

lemma order_status_written:
  assumes "tbl_get (s Orders) k = Some ob" and "status \<noteq> Undefined"
  shows "\<exists>ob'. fst (updateOrderStatus now k status s) = Inr (Some ob')
           \<and> tbl_get (snd (updateOrderStatus now k status s) Orders) k = Some ob'
           \<and> fld ob' ''status'' = status"
proof -
  have "fld (apply_patch [(''status'', status), (''updatedAt'', Str now)] ob) ''status'' = status"
    using assms(2) by (simp add: apply_patch_Cons apply_patch_Nil fld_update)
  then show ?thesis
    using update_record_effect[where s=s and c=Orders and k=k and ob=ob
        and patch="[(''status'', status), (''updatedAt'', Str now)]"
        and r="updateOrderStatus now k status s"] assms(1)
    by (simp add: updateOrderStatus_def)
qed

lemma junk_not_a_category: "\<not> validateEnum (fld pizza ''category'') FOOD_CATEGORIES"
  by (simp add: validateEnum_def pizza_def fld_def FOOD_CATEGORIES_def)

lemma addFood_pizza:
  "addFood ''t0'' pizza empty_store =
     (Inr [(''id'', Num 1), (''name'', Str ''Pizza''), (''category'', Str ''junk''),
           (''createdAt'', Str ''t0'')], pizza_store)"
  by (simp add: addFood_def add_record_def tbl_add_def pizza_def pizza_row_def pizza_store_def
        empty_store_def empty_table_def fld_def Let_def AList.delete_eq generator_limit_def)

section \<open>Reset and reseed in closed form\<close>

lemma stored_seed_item:
  "AList.update ''id'' (Num n)
     (AList.delete ''id'' (AList.update ''createdAt'' (Str now) (emergencyDataItem clock i bp)))
   = emergencyDataItem clock i bp @ [(''createdAt'', Str now), (''id'', Num n)]"
  by (simp add: emergencyDataItem_def AList.delete_eq)

lemma seed_item_no_id:
  "fld (AList.update ''createdAt'' (Str now) (emergencyDataItem clock i bp)) ''id'' = Undefined"
  by (simp add: emergencyDataItem_def fld_def)

lemma addEmergency_seed:
  assumes "\<And>r. r \<in> set (rows (s Emergencies)) \<Longrightarrow> key_lt (fst r) (KNum (nextKey (s Emergencies)))"
    and "nextKey (s Emergencies) \<le> generator_limit"
  shows "\<exists>res. addEmergency (clock (i + length (symptoms bp))) (emergencyDataItem clock i bp) s =
           (Inr res, s(Emergencies :=
               \<lparr>rows = rows (s Emergencies) @ [seed_row clock i (nextKey (s Emergencies)) bp],
                nextKey = nextKey (s Emergencies) + 1\<rparr>))"
proof -
  let ?t = "s Emergencies"
  let ?g = "nextKey ?t"
  let ?now = "clock (i + length (symptoms bp))"
  have fresh: "map_of (rows ?t) (KNum ?g) = None"
  proof (rule map_of_absent, rule notI)
    assume "KNum ?g \<in> fst ` set (rows ?t)"
    then obtain r where "r \<in> set (rows ?t)" "fst r = KNum ?g" by auto
    with assms(1)[of r] show False using key_lt_irrefl by simp
  qed
  have ins: "insert_row (KNum ?g) ob (rows ?t) = rows ?t @ [(KNum ?g, ob)]" for ob
    using assms(1) by (rule insert_row_append)
  have "tbl_add ?t (AList.update ''createdAt'' (Str ?now) (emergencyDataItem clock i bp))
          = Inr (KNum ?g, \<lparr>rows = rows ?t @ [seed_row clock i ?g bp], nextKey = ?g + 1\<rparr>)"
    using fresh assms(2)
    by (simp add: tbl_add_def seed_item_no_id Let_def stored_seed_item ins seed_row_def)
  then show ?thesis
    by (simp add: addEmergency_def add_record_def)
qed

lemma add_body_parts_seeds:
  assumes "\<And>r. r \<in> set (rows (s Emergencies)) \<Longrightarrow> key_lt (fst r) (KNum (nextKey (s Emergencies)))"
    and "nextKey (s Emergencies) + int (length bps) \<le> generator_limit + 1"
  shows "add_body_parts clock i bps s =
           (Inr (), s(Emergencies :=
               \<lparr>rows = rows (s Emergencies) @ seeded_rows clock i (nextKey (s Emergencies)) bps,
                nextKey = nextKey (s Emergencies) + int (length bps)\<rparr>))"
  using assms
proof (induction bps arbitrary: s i)
  case Nil
  have "\<lparr>rows = rows (s Emergencies), nextKey = nextKey (s Emergencies)\<rparr> = s Emergencies"
    by (cases "s Emergencies") simp
  then have "s(Emergencies := \<lparr>rows = rows (s Emergencies), nextKey = nextKey (s Emergencies)\<rparr>) = s"
    by (simp only: fun_upd_triv)
  then show ?case by simp
next
  case (Cons bp bps)
  let ?g = "nextKey (s Emergencies)"
  let ?j = "Suc (i + length (symptoms bp))"
  let ?s1 = "s(Emergencies := \<lparr>rows = rows (s Emergencies) @ [seed_row clock i ?g bp], nextKey = ?g + 1\<rparr>)"
  have room: "?g \<le> generator_limit" using Cons.prems(2) by simp
  obtain res where a: "addEmergency (clock (i + length (symptoms bp))) (emergencyDataItem clock i bp) s
                         = (Inr res, ?s1)"
    using addEmergency_seed[where s=s and clock=clock and i=i and bp=bp, OF Cons.prems(1) room] by blast
  have below: "key_lt (fst r) (KNum (nextKey (?s1 Emergencies)))" if "r \<in> set (rows (?s1 Emergencies))" for r
  proof -
    have step: "key_lt (KNum ?g) (KNum (?g + 1))" by simp
    from that consider "r \<in> set (rows (s Emergencies))" | "r = seed_row clock i ?g bp" by auto
    then show ?thesis
    proof cases
      case 1
      then show ?thesis using Cons.prems(1)[of r] step key_lt_trans by fastforce
    next
      case 2
      then show ?thesis by (simp add: seed_row_def)
    qed
  qed
  have room1: "nextKey (?s1 Emergencies) + int (length bps) \<le> generator_limit + 1"
    using Cons.prems(2) by simp
  have "add_body_parts clock ?j bps ?s1 =
      (Inr (), ?s1(Emergencies :=
               \<lparr>rows = rows (?s1 Emergencies) @ seeded_rows clock ?j (nextKey (?s1 Emergencies)) bps,
                nextKey = nextKey (?s1 Emergencies) + int (length bps)\<rparr>))"
    using below room1 by (rule Cons.IH[of "?s1" ?j])
  also have "?s1(Emergencies :=
               \<lparr>rows = rows (?s1 Emergencies) @ seeded_rows clock ?j (nextKey (?s1 Emergencies)) bps,
                nextKey = nextKey (?s1 Emergencies) + int (length bps)\<rparr>)
      = s(Emergencies :=
               \<lparr>rows = rows (s Emergencies) @ seeded_rows clock i ?g (bp # bps),
                nextKey = ?g + int (length (bp # bps))\<rparr>)"
    by (simp add: add.assoc)
  finally have ih: "add_body_parts clock ?j bps ?s1 =
      (Inr (), s(Emergencies :=
               \<lparr>rows = rows (s Emergencies) @ seeded_rows clock i ?g (bp # bps),
                nextKey = ?g + int (length (bp # bps))\<rparr>))" .
  have "add_body_parts clock i (bp # bps) s = add_body_parts clock ?j bps ?s1"
    by (simp only: add_body_parts.simps a prod.case sum.case)
  then show ?case by (simp only: ih)
qed

lemma getAllEmergencies_cleared:
  "rows (s Emergencies) = [] \<Longrightarrow> getAllEmergencies s = (Inr [], s)"
  by (simp add: getAllEmergencies_def get_all_def tbl_orderBy_reverse_def index_entries_def)

lemma resetAndReloadData_eq:
  assumes "nextKey (s Emergencies) + int (length bps) \<le> generator_limit + 1"
  shows "resetAndReloadData (Inr bps) clock s =
     (Inr (), (\<lambda>c. tbl_clear (s c))(Emergencies :=
         \<lparr>rows = seeded_rows clock 0 (nextKey (s Emergencies)) bps,
          nextKey = nextKey (s Emergencies) + int (length bps)\<rparr>))"
proof -
  let ?s0 = "\<lambda>c. tbl_clear (s c)"
  have r0: "rows (?s0 Emergencies) = []" and g0: "nextKey (?s0 Emergencies) = nextKey (s Emergencies)"
    by (simp_all add: tbl_clear_def)
  have "add_body_parts clock 0 bps ?s0 =
      (Inr (), ?s0(Emergencies :=
               \<lparr>rows = rows (?s0 Emergencies) @ seeded_rows clock 0 (nextKey (?s0 Emergencies)) bps,
                nextKey = nextKey (?s0 Emergencies) + int (length bps)\<rparr>))"
    by (rule add_body_parts_seeds[where s="?s0"]) (use assms in \<open>simp_all add: r0 g0\<close>)
  then have "add_body_parts clock 0 bps ?s0 =
      (Inr (), ?s0(Emergencies :=
               \<lparr>rows = seeded_rows clock 0 (nextKey (s Emergencies)) bps,
                nextKey = nextKey (s Emergencies) + int (length bps)\<rparr>))"
    by (simp only: r0 g0 append_Nil)
  then show ?thesis
    using getAllEmergencies_cleared[where s="?s0", OF r0]
    by (simp add: resetAndReloadData_def clearAllData_eq loadAllInitialData_def
          loadInitialEmergencyData_def)
qed

lemma reset_head_once:
  "resetAndReloadData (Inr [head_part]) morning empty_store =
     (Inr (), empty_store(Emergencies := \<lparr>rows = [seed_row morning 0 1 head_part], nextKey = 2\<rparr>))"
proof -
  have "(\<lambda>c. tbl_clear (empty_store c)) = empty_store"
    by (rule ext) (simp add: empty_store_def empty_table_def tbl_clear_def)
  moreover have "nextKey (empty_store Emergencies) + int (length [head_part]) \<le> generator_limit + 1"
    by (simp add: empty_store_def empty_table_def generator_limit_def)
  ultimately show ?thesis
    by (simp add: resetAndReloadData_eq) (simp add: empty_store_def empty_table_def)
qed

lemma reset_head_twice:
  "resetAndReloadData (Inr [head_part]) evening
      (empty_store(Emergencies := \<lparr>rows = [seed_row morning 0 1 head_part], nextKey = 2\<rparr>)) =
     (Inr (), empty_store(Emergencies := \<lparr>rows = [seed_row evening 0 2 head_part], nextKey = 3\<rparr>))"
proof -
  have "(\<lambda>c. tbl_clear ((empty_store(Emergencies := \<lparr>rows = [seed_row morning 0 1 head_part], nextKey = 2\<rparr>)) c))(Emergencies := t)
         = empty_store(Emergencies := t)" for t
    by (rule ext) (simp add: empty_store_def empty_table_def tbl_clear_def)
  moreover have "nextKey ((empty_store(Emergencies := \<lparr>rows = [seed_row morning 0 1 head_part], nextKey = 2\<rparr>)) Emergencies)
        + int (length [head_part]) \<le> generator_limit + 1"
    by (simp add: generator_limit_def)
  ultimately show ?thesis
    by (simp add: resetAndReloadData_eq)
qed
section \<open>Decimal timestamps and image ids\<close>

lemma below_ten: "d < 10 \<Longrightarrow> d \<in> {0, 1, 2, 3, 4, 5, 6, 7, 8, 9::nat}"
  by auto

lemma digit_code: "d < 10 \<Longrightarrow> (of_char (digit d) :: nat) = 48 + d"
  using below_ten[of d] by (auto simp: digit_def)

lemma digit_inj:
  assumes "a < 10" and "b < 10" and "digit a = digit b"
  shows "a = b"
proof -
  have "(of_char (digit a) :: nat) = of_char (digit b)" by (simp only: assms(3))
  then have "48 + a = 48 + b" by (simp only: digit_code[OF assms(1)] digit_code[OF assms(2)])
  then show ?thesis by simp
qed

lemma digit_not_underscore:
  assumes "d < 10"
  shows "digit d \<noteq> CHR ''_''"
proof
  assume "digit d = CHR ''_''"
  then have "(of_char (digit d) :: nat) = of_char (CHR ''_'')" by (rule arg_cong)
  then have "48 + d = 95" by (simp add: digit_code[OF assms])
  with assms show False by simp
qed

lemma show_nat_not_Nil: "show_nat n \<noteq> []"
  by (subst show_nat.simps) simp

lemma underscore_not_in_show_nat: "CHR ''_'' \<notin> set (show_nat n)"
proof (induction n rule: show_nat.induct)
  case (1 n)
  show ?case
  proof (cases "n < 10")
    case True
    then show ?thesis
      using digit_not_underscore[of n] by (subst show_nat.simps) auto
  next
    case False
    have "n mod 10 < 10" by simp
    then have "digit (n mod 10) \<noteq> CHR ''_''" by (rule digit_not_underscore)
    then show ?thesis
      using False 1 by (subst show_nat.simps) auto
  qed
qed

lemma show_nat_inj: "show_nat n = show_nat m \<Longrightarrow> n = m"
proof (induction n arbitrary: m rule: show_nat.induct)
  case (1 n)
  show ?case
  proof (cases "n < 10")
    case n: True
    show ?thesis
    proof (cases "m < 10")
      case True
      have "[digit n] = [digit m]"
        using "1.prems" n True show_nat.simps[of n] show_nat.simps[of m] by simp
      then show ?thesis using digit_inj n True by simp
    next
      case False
      have "[digit n] = show_nat (m div 10) @ [digit (m mod 10)]"
        using "1.prems" n False show_nat.simps[of n] show_nat.simps[of m] by simp
      then show ?thesis using show_nat_not_Nil[of "m div 10"] by simp
    qed
  next
    case n: False
    show ?thesis
    proof (cases "m < 10")
      case True
      have "show_nat (n div 10) @ [digit (n mod 10)] = [digit m]"
        using "1.prems" n True show_nat.simps[of n] show_nat.simps[of m] by simp
      then show ?thesis using show_nat_not_Nil[of "n div 10"] by simp
    next
      case False
      have "show_nat (n div 10) @ [digit (n mod 10)] = show_nat (m div 10) @ [digit (m mod 10)]"
        using "1.prems" n False show_nat.simps[of n] show_nat.simps[of m] by simp
      then have a: "show_nat (n div 10) = show_nat (m div 10)"
          and b: "digit (n mod 10) = digit (m mod 10)"
        by simp_all
      have "n div 10 = m div 10" using "1.IH"[OF n a] .
      moreover have "n mod 10 = m mod 10" using b by (intro digit_inj) simp_all
      ultimately show ?thesis by (metis div_mult_mod_eq)
    qed
  qed
qed

lemma split_at_separator:
  "c \<notin> set xs \<Longrightarrow> c \<notin> set xs' \<Longrightarrow> xs @ c # ys = xs' @ c # ys' \<Longrightarrow> xs = xs' \<and> ys = ys'"
proof (induction xs arbitrary: xs')
  case Nil
  then show ?case by (cases xs') auto
next
  case (Cons x xs)
  then show ?case by (cases xs') auto
qed

lemma starts_with_append: "starts_with p (p @ s)"
  by (simp add: starts_with_def)

lemma generateImageId_food:
  "generateImageId (Str ''food'') (Num 1) 5 ''abc'' = ''user_upload_food_1_5_abc''"
  by (simp add: generateImageId_def show_int_def show_nat.simps digit_def)

lemma spec_image_id_food:
  "spec_image_id (Str ''food'') (Num 1) 5 ''abc'' = ''food_1_5_abc''"
  by (simp add: spec_image_id_def show_int_def show_nat.simps digit_def)

lemma first_upload_eq:
  "first_upload =
     (Inr \<lparr>success = True, imageId = ''user_upload_food_1_5_abc'', data_r = ''data:a.png'',
           originalSize = 10, compressedSize = 10\<rparr>,
      Open [''user_upload_food_1_5_abc'' \<mapsto>
         \<lparr>id_f = ''user_upload_food_1_5_abc'', type_f = Str ''food'', base64Data = ''data:a.png'',
          originalName = ''a.png'', size_f = 10, bodyPartId = Null, symptomId = Null,
          contactId = Null, foodId = Num 1, phraseId = Null, uploadDate = ''t0''\<rparr>])"
  by (simp add: first_upload_def processAndStoreImage_def Let_def starts_with_def same_tick_def
        file_a_def no_images_def generateImageId_food storeUserImage_def initDB_def owner_key_def)

lemma second_upload_eq:
  "second_upload =
     (Inr \<lparr>success = True, imageId = ''user_upload_food_1_5_abc'', data_r = ''data:b.png'',
           originalSize = 10, compressedSize = 10\<rparr>,
      Open [''user_upload_food_1_5_abc'' \<mapsto>
         \<lparr>id_f = ''user_upload_food_1_5_abc'', type_f = Str ''food'', base64Data = ''data:b.png'',
          originalName = ''b.png'', size_f = 10, bodyPartId = Null, symptomId = Null,
          contactId = Null, foodId = Num 1, phraseId = Null, uploadDate = ''t0''\<rparr>])"
  by (simp add: second_upload_def first_upload_eq processAndStoreImage_def Let_def starts_with_def
        same_tick_def file_b_def generateImageId_food storeUserImage_def initDB_def owner_key_def)

section \<open>Reachable stores are well-formed\<close>

lemma reachable_wf: "reachable s \<Longrightarrow> wf_store s"
proof (induction rule: reachable.induct)
  case init
  show ?case by (rule wf_empty_store)
next
  case (add s c rec)
  then show ?case by (simp add: add_record_wf)
next
  case (update s c k patch)
  then show ?case by (simp add: update_record_wf)
next
  case (modify s c k patch_of)
  then show ?case by (simp add: modify_record_wf)
next
  case (delete s k)
  then show ?case by (simp add: deleteEmergency_wf)
next
  case (clear s)
  then show ?case by (simp add: clearAllData_wf)
next
  case (imported s snapshot)
  then show ?case by (simp add: importData_wf)
next
  case (reset s fetched clock)
  then show ?case by (simp add: resetAndReloadData_wf)
qed

section \<open>Usage counters\<close>

lemma tea_unchanged:
  "updateFoodUsageCount (KNum 1) tea_store = (Inr (Some tea), tea_store)"
proof -
  have g: "tbl_get (tea_store Foods) (KNum 1) = Some tea"
    by (simp add: tea_store_def tbl_get_def)
  have c: "fld tea ''usageCount'' = Num 9007199254740992" by (simp add: tea_def fld_def)
  have p: "apply_patch [(''usageCount'', Num 9007199254740992)] tea = tea"
    by (simp add: apply_patch_Cons apply_patch_Nil tea_def)
  have "updateFoodUsageCount (KNum 1) tea_store =
      (Inr (Some tea), tea_store(Foods := (tea_store Foods)\<lparr>rows := replace_row (KNum 1) tea (rows (tea_store Foods))\<rparr>))"
    unfolding updateFoodUsageCount_def
    by (subst modify_record_present[where s=tea_store and c=Foods and k="KNum 1" and ob=tea, OF g])
       (simp_all add: c incr_count_limit p)
  moreover have "tea_store(Foods := (tea_store Foods)\<lparr>rows := replace_row (KNum 1) tea (rows (tea_store Foods))\<rparr>) = tea_store"
    by (rule ext) (simp add: tea_store_def replace_row_def)
  ultimately show ?thesis by simp
qed

text \<open>
  C10, as the code has it. A usage-count operation on a stored record whose
  \<^verbatim>\<open>usageCount\<close> is absent or \<^verbatim>\<open>undefined\<close> stores the count 1, and so it does when the
  counter is \<^verbatim>\<open>NaN\<close>; on a record whose \<^verbatim>\<open>usageCount\<close> is an integer \<open>n\<close> with
  \<open>-2\<^sup>5\<^sup>3 \<le> n < 2\<^sup>5\<^sup>3\<close> it stores \<open>n + 1\<close>. The operation resolves with the updated
  record, which is the record then found under the id.
\<close>

theorem usage_count_increment:
  fixes s :: store
  assumes "(c, r) \<in> set [(Foods, updateFoodUsageCount k s),
                          (Contacts, updateContactUsageCount now k s),
                          (Phrases, updatePhraseUsageCount now k s),
                          (Activities, updateActivityUsageCount k s)]"
      and "tbl_get (s c) k = Some ob"
  shows "\<exists>ob'. fst r = Inr (Some ob') \<and> tbl_get (snd r c) k = Some ob'
           \<and> (fld ob ''usageCount'' = Undefined \<longrightarrow> fld ob' ''usageCount'' = Num 1)
           \<and> (fld ob ''usageCount'' = NaN \<longrightarrow> fld ob' ''usageCount'' = Num 1)
           \<and> (\<forall>n. fld ob ''usageCount'' = Num n \<longrightarrow> - (2 ^ 53) \<le> n \<longrightarrow> n < 2 ^ 53
                  \<longrightarrow> fld ob' ''usageCount'' = Num (n + 1))"
proof -
  define v where "v = incr_count (fld ob ''usageCount'')"
  have v: "v \<noteq> Undefined" by (simp add: v_def incr_count_not_Undefined)
  have v1: "fld ob ''usageCount'' = Undefined \<Longrightarrow> v = Num 1"
    by (simp add: v_def incr_count_Undefined)
  have v2: "\<And>n. fld ob ''usageCount'' = Num n \<Longrightarrow> - (2 ^ 53) \<le> n \<Longrightarrow> n < 2 ^ 53 \<Longrightarrow> v = Num (n + 1)"
    by (simp add: v_def incr_count_Num)
  have v3: "fld ob ''usageCount'' = NaN \<Longrightarrow> v = Num 1"
    by (simp add: v_def incr_count_NaN)
  have stored: "tbl_get ((s(c := (s c)\<lparr>rows := replace_row k ob' (rows (s c))\<rparr>)) c) k = Some ob'" for ob'
    using assms(2) by (simp add: tbl_get_def map_of_replace_row)
  have one: "fld (apply_patch [(''usageCount'', v)] ob) ''usageCount'' = v"
    using v by (simp add: apply_patch_Cons apply_patch_Nil fld_update)
  have two: "fld (apply_patch [(''usageCount'', v), (''updatedAt'', Str now)] ob) ''usageCount'' = v"
    using v by (simp add: apply_patch_Cons apply_patch_Nil fld_update)
  from assms(1) consider
      (food) "c = Foods" "r = updateFoodUsageCount k s"
    | (contact) "c = Contacts" "r = updateContactUsageCount now k s"
    | (phrase) "c = Phrases" "r = updatePhraseUsageCount now k s"
    | (activity) "c = Activities" "r = updateActivityUsageCount k s"
    by auto
  then show ?thesis
  proof cases
    case food
    have "r = (Inr (Some (apply_patch [(''usageCount'', v)] ob)),
               s(c := (s c)\<lparr>rows := replace_row k (apply_patch [(''usageCount'', v)] ob) (rows (s c))\<rparr>))"
      using assms(2) food
      by (simp add: updateFoodUsageCount_def modify_record_present v_def)
    then show ?thesis using stored one v1 v2 v3 by auto
  next
    case contact
    have "r = (Inr (Some (apply_patch [(''usageCount'', v), (''updatedAt'', Str now)] ob)),
               s(c := (s c)\<lparr>rows := replace_row k
                  (apply_patch [(''usageCount'', v), (''updatedAt'', Str now)] ob) (rows (s c))\<rparr>))"
      using assms(2) contact
      by (simp add: updateContactUsageCount_def modify_record_present v_def)
    then show ?thesis using stored two v1 v2 v3 by auto
  next
    case phrase
    have "r = (Inr (Some (apply_patch [(''usageCount'', v), (''updatedAt'', Str now)] ob)),
               s(c := (s c)\<lparr>rows := replace_row k
                  (apply_patch [(''usageCount'', v), (''updatedAt'', Str now)] ob) (rows (s c))\<rparr>))"
      using assms(2) phrase
      by (simp add: updatePhraseUsageCount_def modify_record_present v_def)
    then show ?thesis using stored two v1 v2 v3 by auto
  next
    case activity
    have "r = (Inr (Some (apply_patch [(''usageCount'', v)] ob)),
               s(c := (s c)\<lparr>rows := replace_row k (apply_patch [(''usageCount'', v)] ob) (rows (s c))\<rparr>))"
      using assms(2) activity
      by (simp add: updateActivityUsageCount_def modify_record_present v_def)
    then show ?thesis using stored one v1 v2 v3 by auto
  qed
qed

theorem usage_count_increment_witness:
  "tbl_get (mom_store Contacts) (KNum 1) = Some mom_row
   \<and> fld mom_row ''usageCount'' = Undefined
   \<and> (\<exists>ob'. fst (updateContactUsageCount ''t1'' (KNum 1) mom_store) = Inr (Some ob')
         \<and> tbl_get (snd (updateContactUsageCount ''t1'' (KNum 1) mom_store) Contacts) (KNum 1) = Some ob'
         \<and> fld ob' ''usageCount'' = Num 1)
   \<and> tbl_get (three_contacts Contacts) (KNum 1) = Some ann
   \<and> fld ann ''usageCount'' = Num 3
   \<and> (\<exists>ob'. fst (updateContactUsageCount ''t1'' (KNum 1) three_contacts) = Inr (Some ob')
         \<and> tbl_get (snd (updateContactUsageCount ''t1'' (KNum 1) three_contacts) Contacts) (KNum 1)
               = Some ob'
         \<and> fld ob' ''usageCount'' = Num 4)"
proof -
  have h1: "(Contacts, updateContactUsageCount ''t1'' (KNum 1) mom_store)
      \<in> set [(Foods, updateFoodUsageCount (KNum 1) mom_store),
              (Contacts, updateContactUsageCount ''t1'' (KNum 1) mom_store),
              (Phrases, updatePhraseUsageCount ''t1'' (KNum 1) mom_store),
              (Activities, updateActivityUsageCount (KNum 1) mom_store)]"
    by simp
  have h2: "tbl_get (mom_store Contacts) (KNum 1) = Some mom_row"
    by (simp add: mom_store_def tbl_get_def)
  have h3: "fld mom_row ''usageCount'' = Undefined"
    by (simp add: mom_row_def fld_def)
  have g1: "(Contacts, updateContactUsageCount ''t1'' (KNum 1) three_contacts)
      \<in> set [(Foods, updateFoodUsageCount (KNum 1) three_contacts),
              (Contacts, updateContactUsageCount ''t1'' (KNum 1) three_contacts),
              (Phrases, updatePhraseUsageCount ''t1'' (KNum 1) three_contacts),
              (Activities, updateActivityUsageCount (KNum 1) three_contacts)]"
    by simp
  have g2: "tbl_get (three_contacts Contacts) (KNum 1) = Some ann"
    by (simp add: three_contacts_def tbl_get_def)
  have g3: "fld ann ''usageCount'' = Num 3"
    by (simp add: ann_def fld_def)
  have a: "\<exists>ob'. fst (updateContactUsageCount ''t1'' (KNum 1) mom_store) = Inr (Some ob')
         \<and> tbl_get (snd (updateContactUsageCount ''t1'' (KNum 1) mom_store) Contacts) (KNum 1) = Some ob'
         \<and> fld ob' ''usageCount'' = Num 1"
    using h3 usage_count_increment [OF h1 h2] by auto
  have b: "\<exists>ob'. fst (updateContactUsageCount ''t1'' (KNum 1) three_contacts) = Inr (Some ob')
         \<and> tbl_get (snd (updateContactUsageCount ''t1'' (KNum 1) three_contacts) Contacts) (KNum 1)
               = Some ob'
         \<and> fld ob' ''usageCount'' = Num 4"
    using g3 usage_count_increment [OF g1 g2] by auto
  show ?thesis using h2 h3 g2 g3 a b by simp
qed

text \<open>
  C10 as stated does not hold for every numeric counter: JavaScript numbers are doubles,
  and \<open>2\<^sup>5\<^sup>3 + 1\<close> rounds back to \<open>2\<^sup>5\<^sup>3\<close>. On a food whose counter is
  \<open>9007199254740992\<close> the operation succeeds and leaves the counter, and the whole store,
  as they were.
\<close>

theorem usage_count_saturates_counterexample:
  "tbl_get (tea_store Foods) (KNum 1) = Some tea
   \<and> fld tea ''usageCount'' = Num 9007199254740992
   \<and> updateFoodUsageCount (KNum 1) tea_store = (Inr (Some tea), tea_store)
   \<and> fld tea ''usageCount'' \<noteq> Num (9007199254740992 + 1)"
  using tea_unchanged by (simp add: tea_store_def tbl_get_def) (simp add: tea_def fld_def)
section \<open>Upload validation\<close>

text \<open>
  C7, as the code has it. A file larger than 5 MB never reaches the image store:
  \<^verbatim>\<open>processAndStoreImage\<close> rejects with a plain \<^verbatim>\<open>Error\<close> whose message names the violated
  constraint (the size message, or the type message when the file is not an image either)
  before compressing, encoding or storing, and the upload component's \<^verbatim>\<open>handleFile\<close>
  reports the validator's messages, again in a plain \<^verbatim>\<open>Error\<close>. In both cases the image
  store afterwards is the image store before.
\<close>

theorem oversized_upload_rejected:
  assumes "size_u f > 5 * 1024 * 1024"
  shows "processAndStoreImage e f imageType identifier db =
           (Inl (Error (if starts_with ''image/'' (type_u f)
                        then ''File size must be less than 5MB''
                        else ''File must be an image'')), db)
       \<and> handleFile e f imageType identifier db =
           (Inl (Error (if starts_with ''image/'' (type_u f)
                        then ''File size must be less than 5MB''
                        else ''File must be an image, File size must be less than 5MB'')), db)
       \<and> \<not> isValid (validateImageFile f)
       \<and> ''File size must be less than 5MB'' \<in> set (errors (validateImageFile f))"
proof -
  have p: "processAndStoreImage e f imageType identifier db =
           (Inl (Error (if starts_with ''image/'' (type_u f)
                        then ''File size must be less than 5MB''
                        else ''File must be an image'')), db)"
    using assms by (simp add: processAndStoreImage_def Let_def show_nat_5)
  have v: "validateImageFile f =
      \<lparr>isValid = False,
       errors = (if starts_with ''image/'' (type_u f) then [] else [''File must be an image''])
                @ [''File size must be less than 5MB'']\<rparr>"
    using assms by (simp add: validateImageFile_def Let_def push_if_def)
  have h: "handleFile e f imageType identifier db =
           (Inl (Error (if starts_with ''image/'' (type_u f)
                        then ''File size must be less than 5MB''
                        else ''File must be an image, File size must be less than 5MB'')), db)"
    by (simp add: handleFile_def Let_def v)
  show ?thesis using p h by (simp add: v)
qed

theorem oversized_upload_rejected_witness:
  "size_u big_file > 5 * 1024 * 1024
   \<and> processAndStoreImage same_tick big_file (Str ''contact'') (Num 1) image_db =
        (Inl (Error ''File size must be less than 5MB''), image_db)
   \<and> handleFile same_tick big_file (Str ''contact'') (Num 1) image_db =
        (Inl (Error ''File size must be less than 5MB''), image_db)"
proof -
  have h: "size_u big_file > 5 * 1024 * 1024" by (simp add: big_file_def)
  have t: "starts_with ''image/'' (type_u big_file)" by (simp add: big_file_def starts_with_def)
  show ?thesis
    using h t oversized_upload_rejected [OF h, of same_tick "Str ''contact''" "Num 1" image_db] by simp
qed

text \<open>
  C7 as stated does not hold: the error of a 6 MB upload is not of a validation error
  class. Both entry points reject it with \<^verbatim>\<open>new Error('File size must be less than 5MB')\<close>,
  the base error class with the message; the image store is left as it was.
\<close>

theorem oversized_upload_plain_error_counterexample:
  "size_u big_file = 6 * 1024 * 1024
   \<and> fst (processAndStoreImage same_tick big_file (Str ''contact'') (Num 1) image_db)
        = Inl (Error ''File size must be less than 5MB'')
   \<and> fst (handleFile same_tick big_file (Str ''contact'') (Num 1) image_db)
        = Inl (Error ''File size must be less than 5MB'')
   \<and> snd (processAndStoreImage same_tick big_file (Str ''contact'') (Num 1) image_db) = image_db
   \<and> snd (handleFile same_tick big_file (Str ''contact'') (Num 1) image_db) = image_db"
  by (simp add: processAndStoreImage_def handleFile_def validateImageFile_def Let_def show_nat_5
        big_file_def starts_with_def push_if_def)
section \<open>Resolving image references\<close>

text \<open>
  What \<^verbatim>\<open>storeUserImage\<close> has stored under an upload id is what \<^verbatim>\<open>getImageSource\<close>
  resolves that id to.
\<close>

lemma stored_image_resolves:
  assumes "starts_with ''user_upload_'' (id_f imageData)"
  shows "getImageSource (Str (id_f imageData)) (snd (storeUserImage now imageData (Open m)))
           = Inr (Str (base64Data imageData))"
proof -
  have "id_f imageData \<noteq> []" using assms by (auto simp: starts_with_def)
  with assms have "isUserUploadedImage (Str (id_f imageData)) = Inr True"
    by (simp add: isUserUploadedImage_def truthy_def)
  then show ?thesis
    by (simp add: getImageSource_def getUserImage_def storeUserImage_def initDB_def Let_def)
qed

text \<open>
  C9. \<^verbatim>\<open>getImageSource\<close> on a reference string: a string that does not start with
  \<^verbatim>\<open>user_upload_\<close> is returned unchanged; for a string that does, when the image store
  holds a record under that string the result is the record's \<^verbatim>\<open>base64Data\<close>, when it
  holds none the result is \<^verbatim>\<open>null\<close>, and when the image store cannot be opened the
  result is \<^verbatim>\<open>null\<close> as well. It never rejects.
\<close>

theorem getImageSource_resolves:
  "(\<not> starts_with ''user_upload_'' ref \<longrightarrow> getImageSource (Str ref) db = Inr (Str ref))
   \<and> (starts_with ''user_upload_'' ref \<longrightarrow>
        (\<forall>m imageData. db = Open m \<longrightarrow> m ref = Some imageData
            \<longrightarrow> getImageSource (Str ref) db = Inr (Str (base64Data imageData)))
        \<and> (\<forall>m. db = Open m \<longrightarrow> m ref = None \<longrightarrow> getImageSource (Str ref) db = Inr Null)
        \<and> (db = Unavailable \<longrightarrow> getImageSource (Str ref) db = Inr Null))
   \<and> (\<exists>v. getImageSource (Str ref) db = Inr v)"
proof (cases "starts_with ''user_upload_'' ref")
  case True
  then have "ref \<noteq> []" by (auto simp: starts_with_def)
  with True have u: "isUserUploadedImage (Str ref) = Inr True"
    by (simp add: isUserUploadedImage_def truthy_def)
  show ?thesis
  proof (cases db)
    case Unavailable
    then show ?thesis
      using True u by (simp add: getImageSource_def getUserImage_def initDB_def)
  next
    case (Open m)
    then show ?thesis
      using True u
      by (cases "m ref") (simp_all add: getImageSource_def getUserImage_def initDB_def)
  qed
next
  case False
  then have u: "isUserUploadedImage (Str ref) = Inr False"
    by (simp add: isUserUploadedImage_def truthy_def)
  show ?thesis
    using False u by (simp add: getImageSource_def)
qed

theorem getImageSource_resolves_witness:
  "\<not> starts_with ''user_upload_'' ''/image/head.png''
   \<and> getImageSource (Str ''/image/head.png'') image_db = Inr (Str ''/image/head.png'')
   \<and> starts_with ''user_upload_'' ''user_upload_bodypart_1_5_abc''
   \<and> image_db = Open [''user_upload_bodypart_1_5_abc'' \<mapsto> head_image]
   \<and> [''user_upload_bodypart_1_5_abc'' \<mapsto> head_image] ''user_upload_bodypart_1_5_abc''
        = Some head_image
   \<and> getImageSource (Str ''user_upload_bodypart_1_5_abc'') image_db
        = Inr (Str ''data:image/png;base64,AAAA'')
   \<and> starts_with ''user_upload_'' ''user_upload_food_2_7_xyz''
   \<and> [''user_upload_bodypart_1_5_abc'' \<mapsto> head_image] ''user_upload_food_2_7_xyz'' = None
   \<and> getImageSource (Str ''user_upload_food_2_7_xyz'') image_db = Inr Null
   \<and> getImageSource (Str ''user_upload_food_2_7_xyz'') Unavailable = Inr Null"
proof -
  have a: "\<not> starts_with ''user_upload_'' ''/image/head.png''"
    by (simp add: starts_with_def)
  have b: "starts_with ''user_upload_'' ''user_upload_bodypart_1_5_abc''"
    by (simp add: starts_with_def)
  have c: "starts_with ''user_upload_'' ''user_upload_food_2_7_xyz''"
    by (simp add: starts_with_def)
  have db: "image_db = Open [''user_upload_bodypart_1_5_abc'' \<mapsto> head_image]"
    by (simp add: image_db_def)
  have gb: "[''user_upload_bodypart_1_5_abc'' \<mapsto> head_image] ''user_upload_bodypart_1_5_abc''
              = Some head_image"
    by simp
  have gc: "[''user_upload_bodypart_1_5_abc'' \<mapsto> head_image] ''user_upload_food_2_7_xyz'' = None"
    by simp
  have d: "base64Data head_image = ''data:image/png;base64,AAAA''"
    by (simp add: head_image_def)
  have r1: "getImageSource (Str ''/image/head.png'') image_db = Inr (Str ''/image/head.png'')"
    using a getImageSource_resolves [of "''/image/head.png''" image_db] by simp
  have r2: "getImageSource (Str ''user_upload_bodypart_1_5_abc'') image_db
              = Inr (Str ''data:image/png;base64,AAAA'')"
    using b db gb d getImageSource_resolves [of "''user_upload_bodypart_1_5_abc''" image_db]
    by simp
  have r3: "getImageSource (Str ''user_upload_food_2_7_xyz'') image_db = Inr Null"
    using c db gc getImageSource_resolves [of "''user_upload_food_2_7_xyz''" image_db]
    by simp
  have r4: "getImageSource (Str ''user_upload_food_2_7_xyz'') Unavailable = Inr Null"
    using c getImageSource_resolves [of "''user_upload_food_2_7_xyz''" Unavailable]
    by simp
  show ?thesis
    using a b c db gb gc r1 r2 r3 r4 by simp
qed
section \<open>Export, clear, import\<close>

lemma roundtrip_wf:
  assumes "wf_store s"
    and "exportData s = (r1, s1)" and "clearAllData s1 = (r2, s2)"
  shows "\<exists>snapshot. r1 = Inr snapshot \<and> (\<forall>c. rows (s2 c) = [])
           \<and> importData snapshot s2 = (Inr True, s)"
proof -
  have e: "r1 = Inr (\<lambda>c. Some (tbl_toArray (s c)))" and s1: "s1 = s"
    using assms(2) by (auto simp: exportData_def)
  have s2: "s2 = (\<lambda>c. tbl_clear (s c))"
    using assms(3) by (simp add: clearAllData_eq s1)
  have d: "distinct all_colls" by (simp add: all_colls_def)
  have "import_colls (\<lambda>c. Some (tbl_toArray (s c))) all_colls s2
          = Inr (\<lambda>c. if c \<in> set all_colls then s c else s2 c)"
    using assms(1) d by (rule import_colls_restores) (simp add: s2)
  then have "import_colls (\<lambda>c. Some (tbl_toArray (s c))) all_colls s2 = Inr s"
    by (simp add: coll_in_all)
  then have "importData (\<lambda>c. Some (tbl_toArray (s c))) s2 = (Inr True, s)"
    by (simp add: importData_def)
  moreover have "\<forall>c. rows (s2 c) = []" by (simp add: s2 tbl_clear_def)
  ultimately show ?thesis using e by simp
qed

lemma reachable_mom_store: "reachable mom_store"
proof -
  have "reachable (snd (add_record Contacts
          (AList.update ''updatedAt'' (Str ''t0'') (AList.update ''createdAt'' (Str ''t0'') mom))
          empty_store))"
    by (rule reachable.add) (rule reachable.init)
  then show ?thesis using addContact_mom by (simp add: addContact_def)
qed

text \<open>
  C2. From every reachable state of the entity store, \<^verbatim>\<open>exportData\<close>, then
  \<^verbatim>\<open>clearAllData\<close> (after which all six tables are empty), then \<^verbatim>\<open>importData\<close> of the
  exported snapshot succeeds and gives back the state before the export: the same records
  under the same ids in all six tables, and the same key generators.
\<close>

theorem export_clear_import_roundtrip:
  assumes "reachable s"
    and "exportData s = (r1, s1)" and "clearAllData s1 = (r2, s2)"
  shows "\<exists>snapshot. r1 = Inr snapshot \<and> (\<forall>c. rows (s2 c) = [])
           \<and> importData snapshot s2 = (Inr True, s)"
  using reachable_wf[OF assms(1)] assms(2,3) by (rule roundtrip_wf)

theorem export_clear_import_roundtrip_witness:
  "reachable mom_store
   \<and> (\<exists>snapshot. fst (exportData mom_store) = Inr snapshot
         \<and> (\<forall>c. rows (snd (clearAllData (snd (exportData mom_store))) c) = [])
         \<and> importData snapshot (snd (clearAllData (snd (exportData mom_store))))
             = (Inr True, mom_store))
   \<and> rows (mom_store Contacts) = [(KNum 1, mom_row)]"
proof -
  have e: "exportData mom_store = (fst (exportData mom_store), snd (exportData mom_store))"
    by simp
  have c: "clearAllData (snd (exportData mom_store))
           = (fst (clearAllData (snd (exportData mom_store))),
              snd (clearAllData (snd (exportData mom_store))))"
    by simp
  have r: "rows (mom_store Contacts) = [(KNum 1, mom_row)]"
    by (simp add: mom_store_def)
  show ?thesis
    using reachable_mom_store r export_clear_import_roundtrip [OF reachable_mom_store e c]
    by simp
qed

section \<open>The getAll queries\<close>

text \<open>
  Each \<^verbatim>\<open>getAll\<close> walks a secondary index backwards: emergencies, foods and activities
  on \<^verbatim>\<open>createdAt\<close>, contacts and phrases on \<^verbatim>\<open>usageCount\<close>, orders on \<^verbatim>\<open>orderDate\<close>.
  The result is sorted by that key in descending order and holds exactly the records of
  the table whose sort property is a valid index key; a record without one is not in the
  index and is not returned.
\<close>

lemma getAll_sorted_by_index:
  fixes s :: store
  assumes "(c, f, r) \<in> set [(Emergencies, ''createdAt'', getAllEmergencies s),
                             (Foods, ''createdAt'', getAllFoods s),
                             (Activities, ''createdAt'', getAllActivities s),
                             (Contacts, ''usageCount'', getAllContacts s),
                             (Phrases, ''usageCount'', getAllPhrases s),
                             (Orders, ''orderDate'', getAllOrders s)]"
  shows "\<exists>xs. r = (Inr xs, s) \<and> sorted_wrt (desc_by f) xs
           \<and> mset xs = mset (filter (has_key f) (tbl_toArray (s c)))"
proof -
  have "r = (Inr (tbl_orderBy_reverse f (s c)), s)"
    using assms
    by (auto simp: getAllEmergencies_def getAllFoods_def getAllActivities_def
          getAllContacts_def getAllPhrases_def getAllOrders_def get_all_def)
  then show ?thesis
    using orderBy_reverse_sorted orderBy_reverse_mset by blast
qed

text \<open>
  C5. \<^verbatim>\<open>getAllContacts\<close> does not return the contacts collection. The contact of the
  specification's scenario is added without a \<^verbatim>\<open>usageCount\<close>, and \<^verbatim>\<open>addContact\<close> sets
  none; it is stored, and \<^verbatim>\<open>exportData\<close> returns it, but \<^verbatim>\<open>getAllContacts\<close> resolves
  with the empty list, which \<^verbatim>\<open>checkAndLoadInitialData\<close> reads as a collection without
  data.
\<close>

theorem getAllContacts_omits_stored_contact:
  "addContact ''t0'' mom empty_store = (Inr ((''id'', Num 1) # AList.update ''updatedAt'' (Str ''t0'')
        (AList.update ''createdAt'' (Str ''t0'') mom)), mom_store)
   \<and> tbl_toArray (mom_store Contacts) = [mom_row]
   \<and> exported_contacts mom_store = Some [mom_row]
   \<and> getAllContacts mom_store = (Inr [], mom_store)"
  using addContact_mom
  by (simp add: getAllContacts_def get_all_def tbl_orderBy_reverse_def index_entries_def
        mom_store_def mom_row_def fld_def tbl_toArray_def exported_contacts_def exportData_def)
section \<open>Operations on an id that is not stored\<close>

text \<open>
  C3, as the code has it. For an id that is not in the table, \<^verbatim>\<open>getEmergencyById\<close> and
  \<^verbatim>\<open>updateOrderStatus\<close> resolve with \<^verbatim>\<open>undefined\<close>; the usage-count operations and
  \<^verbatim>\<open>toggleFavorite\<close> reject with the TypeError of reading a property of the
  \<^verbatim>\<open>undefined\<close> record. In every case the store is left as it was.
\<close>

theorem missing_id_behaviour:
  fixes s :: store
  shows "(tbl_get (s Emergencies) k = None \<longrightarrow> getEmergencyById k s = (Inr None, s))
       \<and> (tbl_get (s Orders) k = None \<longrightarrow> updateOrderStatus now k status s = (Inr None, s))
       \<and> (tbl_get (s Foods) k = None \<longrightarrow>
             updateFoodUsageCount k s = (Inl TypeError, s) \<and> toggleFavorite k s = (Inl TypeError, s))
       \<and> (tbl_get (s Contacts) k = None \<longrightarrow> updateContactUsageCount now k s = (Inl TypeError, s))
       \<and> (tbl_get (s Phrases) k = None \<longrightarrow> updatePhraseUsageCount now k s = (Inl TypeError, s))"
  by (simp add: getEmergencyById_def updateOrderStatus_def update_record_absent
        updateFoodUsageCount_def toggleFavorite_def updateContactUsageCount_def
        updatePhraseUsageCount_def modify_record_absent)

theorem missing_id_behaviour_witness:
  "tbl_get (empty_store Emergencies) (KNum 7) = None
   \<and> tbl_get (empty_store Orders) (KNum 7) = None
   \<and> tbl_get (empty_store Foods) (KNum 7) = None
   \<and> tbl_get (empty_store Contacts) (KNum 7) = None
   \<and> tbl_get (empty_store Phrases) (KNum 7) = None
   \<and> getEmergencyById (KNum 7) empty_store = (Inr None, empty_store)
   \<and> updateOrderStatus ''t1'' (KNum 7) (Str ''ready'') empty_store = (Inr None, empty_store)
   \<and> updateFoodUsageCount (KNum 7) empty_store = (Inl TypeError, empty_store)
   \<and> toggleFavorite (KNum 7) empty_store = (Inl TypeError, empty_store)
   \<and> updateContactUsageCount ''t1'' (KNum 7) empty_store = (Inl TypeError, empty_store)
   \<and> updatePhraseUsageCount ''t1'' (KNum 7) empty_store = (Inl TypeError, empty_store)"
  using missing_id_behaviour [of empty_store "KNum 7" "''t1''" "Str ''ready''"]
  by (simp add: tbl_get_empty)

text \<open>
  C3 as stated does not hold: on an id that is not stored, reading by id and updating an
  order's status do not fail at all.
\<close>

theorem missing_id_no_error_counterexample:
  "tbl_get (empty_store Emergencies) (KNum 7) = None
   \<and> getEmergencyById (KNum 7) empty_store = (Inr None, empty_store)
   \<and> tbl_get (empty_store Orders) (KNum 7) = None
   \<and> updateOrderStatus ''t1'' (KNum 7) (Str ''ready'') empty_store = (Inr None, empty_store)"
  by (simp add: tbl_get_empty getEmergencyById_def updateOrderStatus_def update_record_absent)

section \<open>Timestamps\<close>

text \<open>
  C8, as the code has it. The usage-count, toggle and order-status operations, and
  \<^verbatim>\<open>updateEmergency\<close> with a patch of plain property names (no dotted paths) that names
  neither \<^verbatim>\<open>createdAt\<close> nor \<^verbatim>\<open>id\<close>, leave the \<^verbatim>\<open>createdAt\<close> of the record unchanged
  and touch no other record; the mutations of contacts, phrases and orders, the types
  with an \<^verbatim>\<open>updatedAt\<close>, set it to the clock reading of the call.
\<close>

theorem timestamps_on_mutation:
  fixes s :: store
  assumes "(c, r, stamped) \<in> set
       [(Foods, updateFoodUsageCount k s, False),
        (Foods, toggleFavorite k s, False),
        (Contacts, updateContactUsageCount now k s, True),
        (Phrases, updatePhraseUsageCount now k s, True),
        (Orders, updateOrderStatus now k status s, True),
        (Activities, updateActivityUsageCount k s, False),
        (Activities, toggleActivityActive k s, False),
        (Emergencies, updateEmergency k patch s, False)]"
    and "tbl_get (s c) k = Some ob"
    and "c = Emergencies \<longrightarrow> ''createdAt'' \<notin> fst ` set patch \<and> ''id'' \<notin> fst ` set patch
           \<and> (\<forall>p \<in> fst ` set patch. CHR ''.'' \<notin> set p)"
  shows "\<exists>ob'. fst r = Inr (Some ob') \<and> tbl_get (snd r c) k = Some ob'
           \<and> fld ob' ''createdAt'' = fld ob ''createdAt''
           \<and> (stamped \<longrightarrow> fld ob' ''updatedAt'' = Str now)
           \<and> (\<forall>c' k'. (c', k') \<noteq> (c, k) \<longrightarrow> tbl_get (snd r c') k' = tbl_get (s c') k')"
proof -
  note ps = apply_patch_Cons apply_patch_Nil fld_update fld_delete
  from assms(1) consider
      (a) "c = Foods" "r = updateFoodUsageCount k s" "\<not> stamped"
    | (b) "c = Foods" "r = toggleFavorite k s" "\<not> stamped"
    | (c) "c = Contacts" "r = updateContactUsageCount now k s"
    | (d) "c = Phrases" "r = updatePhraseUsageCount now k s"
    | (e) "c = Orders" "r = updateOrderStatus now k status s"
    | (f) "c = Activities" "r = updateActivityUsageCount k s" "\<not> stamped"
    | (g) "c = Activities" "r = toggleActivityActive k s" "\<not> stamped"
    | (h) "c = Emergencies" "r = updateEmergency k patch s" "\<not> stamped"
    by auto
  then show ?thesis
  proof cases
    case a
    show ?thesis
      by (rule modify_keeps_createdAt[where s=s and c=c and k=k and ob=ob and patch_of = "\<lambda>food. [(''usageCount'', incr_count (fld food ''usageCount''))]"])
         (use assms(2) a in \<open>simp_all add: updateFoodUsageCount_def\<close>)
  next
    case b
    show ?thesis
      by (rule modify_keeps_createdAt[where s=s and c=c and k=k and ob=ob and patch_of = "\<lambda>food. [(''isFavorite'', Bool (\<not> truthy (fld food ''isFavorite'')))]"])
         (use assms(2) b in \<open>simp_all add: toggleFavorite_def\<close>)
  next
    case c
    show ?thesis
      by (rule modify_keeps_createdAt[where s=s and c=c and k=k and ob=ob and patch_of = "\<lambda>contact. [(''usageCount'', incr_count (fld contact ''usageCount'')),
                    (''updatedAt'', Str now)]"])
         (use assms(2) c in \<open>simp_all add: updateContactUsageCount_def ps\<close>)
  next
    case d
    show ?thesis
      by (rule modify_keeps_createdAt[where s=s and c=c and k=k and ob=ob and patch_of = "\<lambda>phrase. [(''usageCount'', incr_count (fld phrase ''usageCount'')),
                   (''updatedAt'', Str now)]"])
         (use assms(2) d in \<open>simp_all add: updatePhraseUsageCount_def ps\<close>)
  next
    case e
    show ?thesis
      by (rule update_keeps_createdAt[where s=s and c=c and k=k and ob=ob and patch = "[(''status'', status), (''updatedAt'', Str now)]"])
         (use assms(2) e in \<open>simp_all add: updateOrderStatus_def ps\<close>)
  next
    case f
    show ?thesis
      by (rule modify_keeps_createdAt[where s=s and c=c and k=k and ob=ob and patch_of = "\<lambda>activity. [(''usageCount'', incr_count (fld activity ''usageCount''))]"])
         (use assms(2) f in \<open>simp_all add: updateActivityUsageCount_def\<close>)
  next
    case g
    show ?thesis
      by (rule modify_keeps_createdAt[where s=s and c=c and k=k and ob=ob and patch_of = "\<lambda>activity. [(''isActive'', Bool (\<not> truthy (fld activity ''isActive'')))]"])
         (use assms(2) g in \<open>simp_all add: toggleActivityActive_def\<close>)
  next
    case h
    show ?thesis
      by (rule update_keeps_createdAt[where s=s and c=c and k=k and ob=ob and patch = patch])
         (use assms(2,3) h in \<open>simp_all add: updateEmergency_def\<close>)
  qed
qed

theorem timestamps_on_mutation_witness:
  "tbl_get (mom_store Contacts) (KNum 1) = Some mom_row
   \<and> (\<exists>ob'. fst (updateContactUsageCount ''t1'' (KNum 1) mom_store) = Inr (Some ob')
         \<and> tbl_get (snd (updateContactUsageCount ''t1'' (KNum 1) mom_store) Contacts) (KNum 1) = Some ob'
         \<and> fld ob' ''createdAt'' = Str ''t0''
         \<and> fld ob' ''updatedAt'' = Str ''t1'')
   \<and> tbl_get (head_store Emergencies) (KNum 1) = Some head_row
   \<and> (\<exists>ob'. fst (updateEmergency (KNum 1) [(''name'', Str ''Skull'')] head_store) = Inr (Some ob')
         \<and> tbl_get (snd (updateEmergency (KNum 1) [(''name'', Str ''Skull'')] head_store) Emergencies)
               (KNum 1) = Some ob'
         \<and> fld ob' ''createdAt'' = Str ''t0'')"
proof -
  have h1: "(Contacts, updateContactUsageCount ''t1'' (KNum 1) mom_store, True) \<in> set
       [(Foods, updateFoodUsageCount (KNum 1) mom_store, False),
        (Foods, toggleFavorite (KNum 1) mom_store, False),
        (Contacts, updateContactUsageCount ''t1'' (KNum 1) mom_store, True),
        (Phrases, updatePhraseUsageCount ''t1'' (KNum 1) mom_store, True),
        (Orders, updateOrderStatus ''t1'' (KNum 1) Undefined mom_store, True),
        (Activities, updateActivityUsageCount (KNum 1) mom_store, False),
        (Activities, toggleActivityActive (KNum 1) mom_store, False),
        (Emergencies, updateEmergency (KNum 1) [] mom_store, False)]"
    by simp
  have h2: "tbl_get (mom_store Contacts) (KNum 1) = Some mom_row"
    by (simp add: mom_store_def tbl_get_def)
  have h3: "Contacts = Emergencies \<longrightarrow> ''createdAt'' \<notin> fst ` set [] \<and> ''id'' \<notin> fst ` set []
           \<and> (\<forall>p \<in> fst ` set ([] :: obj). CHR ''.'' \<notin> set p)"
    by simp
  have c: "fld mom_row ''createdAt'' = Str ''t0''"
    by (simp add: mom_row_def fld_def)
  have g1: "(Emergencies, updateEmergency (KNum 1) [(''name'', Str ''Skull'')] head_store, False) \<in> set
       [(Foods, updateFoodUsageCount (KNum 1) head_store, False),
        (Foods, toggleFavorite (KNum 1) head_store, False),
        (Contacts, updateContactUsageCount ''t1'' (KNum 1) head_store, True),
        (Phrases, updatePhraseUsageCount ''t1'' (KNum 1) head_store, True),
        (Orders, updateOrderStatus ''t1'' (KNum 1) Undefined head_store, True),
        (Activities, updateActivityUsageCount (KNum 1) head_store, False),
        (Activities, toggleActivityActive (KNum 1) head_store, False),
        (Emergencies, updateEmergency (KNum 1) [(''name'', Str ''Skull'')] head_store, False)]"
    by simp
  have g2: "tbl_get (head_store Emergencies) (KNum 1) = Some head_row"
    by (simp add: head_store_def tbl_get_def)
  have g3: "Emergencies = Emergencies \<longrightarrow>
              ''createdAt'' \<notin> fst ` set [(''name'', Str ''Skull'')]
              \<and> ''id'' \<notin> fst ` set [(''name'', Str ''Skull'')]
              \<and> (\<forall>p \<in> fst ` set [(''name'', Str ''Skull'')]. CHR ''.'' \<notin> set p)"
    by simp
  have d: "fld head_row ''createdAt'' = Str ''t0''"
    by (simp add: head_row_def fld_def)
  have a: "\<exists>ob'. fst (updateContactUsageCount ''t1'' (KNum 1) mom_store) = Inr (Some ob')
         \<and> tbl_get (snd (updateContactUsageCount ''t1'' (KNum 1) mom_store) Contacts) (KNum 1) = Some ob'
         \<and> fld ob' ''createdAt'' = Str ''t0''
         \<and> fld ob' ''updatedAt'' = Str ''t1''"
    using c timestamps_on_mutation [OF h1 h2 h3] by auto
  have b: "\<exists>ob'. fst (updateEmergency (KNum 1) [(''name'', Str ''Skull'')] head_store) = Inr (Some ob')
         \<and> tbl_get (snd (updateEmergency (KNum 1) [(''name'', Str ''Skull'')] head_store) Emergencies)
               (KNum 1) = Some ob'
         \<and> fld ob' ''createdAt'' = Str ''t0''"
    using d timestamps_on_mutation [OF g1 g2 g3] by auto
  show ?thesis using h2 g2 a b by simp
qed

text \<open>
  C8 as stated does not hold: \<^verbatim>\<open>updateEmergency\<close> writes the caller's patch as it is, so a
  patch that names \<^verbatim>\<open>createdAt\<close> replaces the creation time.
\<close>

theorem createdAt_overwritten_counterexample:
  "tbl_get (head_store Emergencies) (KNum 1) = Some head_row
   \<and> fld head_row ''createdAt'' = Str ''t0''
   \<and> fst (updateEmergency (KNum 1) [(''createdAt'', Str ''t9'')] head_store)
        = Inr (Some [(''name'', Str ''Head''), (''createdAt'', Str ''t9''), (''id'', Num 1)])
   \<and> tbl_get (snd (updateEmergency (KNum 1) [(''createdAt'', Str ''t9'')] head_store) Emergencies) (KNum 1)
        = Some [(''name'', Str ''Head''), (''createdAt'', Str ''t9''), (''id'', Num 1)]"
  by (simp add: updateEmergency_def update_record_def tbl_update_def tbl_get_def head_store_def
        head_row_def fld_def apply_patch_def replace_row_def Let_def)

section \<open>Validation\<close>

text \<open>
  C1, as the code has it. For a record whose category-like field is outside the type's
  enumerated set, the type's validator never returns the empty error list, and an error
  list it returns names the invalid field. The store operations do not call the
  validators. In a reachable store whose key generator for the collection is not
  exhausted, \<^verbatim>\<open>add\<close> of such a record without an \<^verbatim>\<open>id\<close> of its own succeeds: the
  record \<open>rec\<close> that is written is the data as given with the timestamps of the
  operation, the invalid field unchanged; it is returned with the generated id, that id
  was free before, the table holds exactly \<open>rec\<close> with the id under it afterwards, and
  nothing else in the store changes. \<^verbatim>\<open>updateOrderStatus\<close> writes a status outside the
  set into a stored order.
\<close>

theorem validators_report_add_stores:
  fixes s :: store
  assumes "(c, f, enum, msg, v, r, rec) \<in> set
      [(Contacts, ''relationship'', CONTACT_RELATIONSHIPS, ''Invalid relationship'',
          validateContactData d, addContact now d s,
          AList.update ''updatedAt'' (Str now) (AList.update ''createdAt'' (Str now) d)),
        (Contacts, ''gender'', CONTACT_GENDER, ''Invalid gender'',
          validateContactData d, addContact now d s,
          AList.update ''updatedAt'' (Str now) (AList.update ''createdAt'' (Str now) d)),
        (Foods, ''category'', FOOD_CATEGORIES, ''Invalid category'',
          validateFoodData d, addFood now d s,
          AList.update ''createdAt'' (Str now) d),
        (Phrases, ''category'', PHRASE_CATEGORIES, ''Invalid category'',
          validatePhraseData d, addPhrase now d s,
          AList.update ''updatedAt'' (Str now) (AList.update ''createdAt'' (Str now) d)),
        (Orders, ''status'', ORDER_STATUS, ''Invalid status'',
          validateOrderData d, addOrder now d s,
          AList.update ''updatedAt'' (Str now) (AList.update ''createdAt'' (Str now) d)),
        (Activities, ''category'', ACTIVITY_CATEGORIES, ''Invalid category'',
          validateActivityData d, addActivity now d s,
          AList.update ''createdAt'' (Str now) d)]"
    and "\<not> validateEnum (fld d f) enum"
    and "reachable s" and "fld d ''id'' = Undefined"
    and "nextKey (s c) \<le> generator_limit"
  shows "v \<noteq> Inr [] \<and> (\<forall>errs. v = Inr errs \<longrightarrow> msg \<in> set errs)
       \<and> fld rec f = fld d f
       \<and> fst r = Inr ((''id'', Num (nextKey (s c))) # AList.delete ''id'' rec)
       \<and> tbl_get (s c) (KNum (nextKey (s c))) = None
       \<and> tbl_get (snd r c) (KNum (nextKey (s c)))
            = Some (AList.update ''id'' (Num (nextKey (s c))) (AList.delete ''id'' rec))
       \<and> (\<forall>c' k'. (c', k') \<noteq> (c, KNum (nextKey (s c)))
              \<longrightarrow> tbl_get (snd r c') k' = tbl_get (s c') k')
       \<and> (\<forall>k ob status. tbl_get (s Orders) k = Some ob
              \<longrightarrow> \<not> validateEnum status ORDER_STATUS \<longrightarrow> status \<noteq> Undefined
              \<longrightarrow> (\<exists>ob'. fst (updateOrderStatus now k status s) = Inr (Some ob')
                     \<and> tbl_get (snd (updateOrderStatus now k status s) Orders) k = Some ob'
                     \<and> fld ob' ''status'' = status))"
proof -
  have wf: "wf_store s" using assms(3) by (rule reachable_wf)
  have cases: "(c = Contacts \<and> f = ''relationship'' \<and> enum = CONTACT_RELATIONSHIPS
        \<and> msg = ''Invalid relationship'' \<and> v = validateContactData d \<and> r = addContact now d s
        \<and> rec = AList.update ''updatedAt'' (Str now) (AList.update ''createdAt'' (Str now) d))
     \<or> (c = Contacts \<and> f = ''gender'' \<and> enum = CONTACT_GENDER
        \<and> msg = ''Invalid gender'' \<and> v = validateContactData d \<and> r = addContact now d s
        \<and> rec = AList.update ''updatedAt'' (Str now) (AList.update ''createdAt'' (Str now) d))
     \<or> (c = Foods \<and> f = ''category'' \<and> enum = FOOD_CATEGORIES
        \<and> msg = ''Invalid category'' \<and> v = validateFoodData d \<and> r = addFood now d s
        \<and> rec = AList.update ''createdAt'' (Str now) d)
     \<or> (c = Phrases \<and> f = ''category'' \<and> enum = PHRASE_CATEGORIES
        \<and> msg = ''Invalid category'' \<and> v = validatePhraseData d \<and> r = addPhrase now d s
        \<and> rec = AList.update ''updatedAt'' (Str now) (AList.update ''createdAt'' (Str now) d))
     \<or> (c = Orders \<and> f = ''status'' \<and> enum = ORDER_STATUS
        \<and> msg = ''Invalid status'' \<and> v = validateOrderData d \<and> r = addOrder now d s
        \<and> rec = AList.update ''updatedAt'' (Str now) (AList.update ''createdAt'' (Str now) d))
     \<or> (c = Activities \<and> f = ''category'' \<and> enum = ACTIVITY_CATEGORIES
        \<and> msg = ''Invalid category'' \<and> v = validateActivityData d \<and> r = addActivity now d s
        \<and> rec = AList.update ''createdAt'' (Str now) d)"
    using assms(1) by (simp only: list.set insert_iff empty_iff prod.inject simp_thms)
  have adds: "v \<noteq> Inr [] \<and> (\<forall>errs. v = Inr errs \<longrightarrow> msg \<in> set errs)
       \<and> fld rec f = fld d f
       \<and> fst r = Inr ((''id'', Num (nextKey (s c))) # AList.delete ''id'' rec)
       \<and> tbl_get (s c) (KNum (nextKey (s c))) = None
       \<and> tbl_get (snd r c) (KNum (nextKey (s c)))
            = Some (AList.update ''id'' (Num (nextKey (s c))) (AList.delete ''id'' rec))
       \<and> (\<forall>c' k'. (c', k') \<noteq> (c, KNum (nextKey (s c)))
              \<longrightarrow> tbl_get (snd r c') k' = tbl_get (s c') k')"
    using cases assms(2) wf assms(4) assms(5)
    apply (elim disjE conjE)
    subgoal by hypsubst (rule rel_case)
    subgoal by hypsubst (rule gen_case)
    subgoal by hypsubst (rule food_case)
    subgoal by hypsubst (rule phrase_case)
    subgoal by hypsubst (rule order_case)
    subgoal by hypsubst (rule activity_case)
    done
  have upd: "\<forall>k ob status. tbl_get (s Orders) k = Some ob
              \<longrightarrow> \<not> validateEnum status ORDER_STATUS \<longrightarrow> status \<noteq> Undefined
              \<longrightarrow> (\<exists>ob'. fst (updateOrderStatus now k status s) = Inr (Some ob')
                     \<and> tbl_get (snd (updateOrderStatus now k status s) Orders) k = Some ob'
                     \<and> fld ob' ''status'' = status)"
    using order_status_written by blast
  show ?thesis
    using adds upd by (elim conjE) (intro conjI; assumption)
qed

theorem validators_report_add_stores_witness:
  "\<not> validateEnum (fld pizza ''category'') FOOD_CATEGORIES
   \<and> reachable empty_store \<and> fld pizza ''id'' = Undefined
   \<and> nextKey (empty_store Foods) \<le> generator_limit
   \<and> validateFoodData pizza = Inr [''Invalid category'']
   \<and> fst (addFood ''t0'' pizza empty_store)
        = Inr ((''id'', Num 1) # AList.delete ''id'' (AList.update ''createdAt'' (Str ''t0'') pizza))
   \<and> tbl_get (empty_store Foods) (KNum 1) = None
   \<and> tbl_get (snd (addFood ''t0'' pizza empty_store) Foods) (KNum 1)
        = Some (AList.update ''id'' (Num 1)
                  (AList.delete ''id'' (AList.update ''createdAt'' (Str ''t0'') pizza)))
   \<and> fld (AList.update ''createdAt'' (Str ''t0'') pizza) ''category'' = Str ''junk''"
proof -
  have h1: "(Foods, ''category'', FOOD_CATEGORIES, ''Invalid category'',
             validateFoodData pizza, addFood ''t0'' pizza empty_store,
             AList.update ''createdAt'' (Str ''t0'') pizza) \<in> set
      [(Contacts, ''relationship'', CONTACT_RELATIONSHIPS, ''Invalid relationship'',
          validateContactData pizza, addContact ''t0'' pizza empty_store,
          AList.update ''updatedAt'' (Str ''t0'') (AList.update ''createdAt'' (Str ''t0'') pizza)),
        (Contacts, ''gender'', CONTACT_GENDER, ''Invalid gender'',
          validateContactData pizza, addContact ''t0'' pizza empty_store,
          AList.update ''updatedAt'' (Str ''t0'') (AList.update ''createdAt'' (Str ''t0'') pizza)),
        (Foods, ''category'', FOOD_CATEGORIES, ''Invalid category'',
          validateFoodData pizza, addFood ''t0'' pizza empty_store,
          AList.update ''createdAt'' (Str ''t0'') pizza),
        (Phrases, ''category'', PHRASE_CATEGORIES, ''Invalid category'',
          validatePhraseData pizza, addPhrase ''t0'' pizza empty_store,
          AList.update ''updatedAt'' (Str ''t0'') (AList.update ''createdAt'' (Str ''t0'') pizza)),
        (Orders, ''status'', ORDER_STATUS, ''Invalid status'',
          validateOrderData pizza, addOrder ''t0'' pizza empty_store,
          AList.update ''updatedAt'' (Str ''t0'') (AList.update ''createdAt'' (Str ''t0'') pizza)),
        (Activities, ''category'', ACTIVITY_CATEGORIES, ''Invalid category'',
          validateActivityData pizza, addActivity ''t0'' pizza empty_store,
          AList.update ''createdAt'' (Str ''t0'') pizza)]"
    by simp
  have h3: "reachable empty_store" by (rule reachable.init)
  have h4: "fld pizza ''id'' = Undefined" by (simp add: pizza_def fld_def)
  have h5: "nextKey (empty_store Foods) \<le> generator_limit"
    by (simp add: empty_store_def empty_table_def generator_limit_def)
  have g: "nextKey (empty_store Foods) = 1"
    by (simp add: empty_store_def empty_table_def)
  have v: "validateFoodData pizza = Inr [''Invalid category'']"
    by (simp add: validateFoodData_def pizza_def fld_def is_blank_def trim_def is_space_def
          push_if_def validateEnum_def FOOD_CATEGORIES_def)
  have c: "fld pizza ''category'' = Str ''junk''" by (simp add: pizza_def fld_def)
  show ?thesis
    using junk_not_a_category h3 h4 h5 v c
      validators_report_add_stores [OF h1 junk_not_a_category h3 h4 h5]
    by (simp add: g)
qed

text \<open>
  C1 as stated does not hold: adding a food of category \<^verbatim>\<open>junk\<close> to the empty store
  succeeds, and the food is in the table afterwards.
\<close>

theorem add_without_validation_counterexample:
  "\<not> validateEnum (fld pizza ''category'') FOOD_CATEGORIES
   \<and> addFood ''t0'' pizza empty_store =
       (Inr [(''id'', Num 1), (''name'', Str ''Pizza''), (''category'', Str ''junk''),
             (''createdAt'', Str ''t0'')], pizza_store)
   \<and> tbl_toArray (empty_store Foods) = []
   \<and> tbl_toArray (pizza_store Foods) = [pizza_row]"
  using junk_not_a_category addFood_pizza
  by (simp add: tbl_toArray_def pizza_store_def empty_store_def empty_table_def)

section \<open>Reset\<close>

text \<open>
  C4, as the code has it. Two consecutive calls of \<^verbatim>\<open>resetAndReloadData\<close> with the same
  seed document, each with the clock readings of its own run, both succeed as long as the
  key generator of the emergencies table has room for the ids of both; after each, the
  five other tables are empty and the emergencies table holds one record per body part of
  the document, in document order. The records of the second call carry the second call's
  clock readings and the ids that follow those of the first call, since clearing a table
  does not reset its key generator: the two final stores are equal only when the document
  has no body parts.
\<close>

theorem resetAll_twice:
  assumes "resetAndReloadData (Inr bps) clock1 s = (r1, s1)"
    and "resetAndReloadData (Inr bps) clock2 s1 = (r2, s2)"
    and "nextKey (s Emergencies) + 2 * int (length bps) \<le> generator_limit + 1"
  shows "r1 = Inr () \<and> r2 = Inr ()
       \<and> (\<forall>c. c \<noteq> Emergencies \<longrightarrow> rows (s1 c) = [] \<and> rows (s2 c) = [])
       \<and> rows (s1 Emergencies) = seeded_rows clock1 0 (nextKey (s Emergencies)) bps
       \<and> rows (s2 Emergencies)
            = seeded_rows clock2 0 (nextKey (s Emergencies) + int (length bps)) bps
       \<and> (s1 = s2) = (bps = [])"
proof -
  let ?g = "nextKey (s Emergencies)"
  let ?n = "int (length bps)"
  have room1: "?g + ?n \<le> generator_limit + 1" using assms(3) by simp
  have s1: "s1 = (\<lambda>c. tbl_clear (s c))(Emergencies := \<lparr>rows = seeded_rows clock1 0 ?g bps, nextKey = ?g + ?n\<rparr>)"
    and r1: "r1 = Inr ()"
    using assms(1) by (simp_all add: resetAndReloadData_eq[where s=s and bps=bps, OF room1])
  have g1: "nextKey (s1 Emergencies) = ?g + ?n" by (simp add: s1)
  have room2: "nextKey (s1 Emergencies) + ?n \<le> generator_limit + 1"
    using assms(3) by (simp add: g1)
  have s2: "s2 = (\<lambda>c. tbl_clear (s1 c))(Emergencies :=
               \<lparr>rows = seeded_rows clock2 0 (?g + ?n) bps, nextKey = ?g + ?n + ?n\<rparr>)"
    and r2: "r2 = Inr ()"
    using assms(2) by (simp_all add: resetAndReloadData_eq[where s=s1 and bps=bps, OF room2] g1)
  have others: "\<forall>c. c \<noteq> Emergencies \<longrightarrow> rows (s1 c) = [] \<and> rows (s2 c) = []"
    by (simp add: s1 s2 tbl_clear_def)
  have same: "(s1 = s2) = (bps = [])"
  proof
    assume "s1 = s2"
    then have "nextKey (s1 Emergencies) = nextKey (s2 Emergencies)" by simp
    then show "bps = []" by (simp add: s1 s2)
  next
    assume e: "bps = []"
    show "s1 = s2"
      by (rule ext) (simp add: s1 s2 e tbl_clear_def)
  qed
  show ?thesis
    using r1 r2 others same by (simp add: s1 s2)
qed

theorem resetAll_twice_witness:
  "resetAndReloadData (Inr [head_part]) morning empty_store =
     (Inr (), empty_store(Emergencies := \<lparr>rows = [seed_row morning 0 1 head_part], nextKey = 2\<rparr>))
   \<and> resetAndReloadData (Inr [head_part]) evening
        (empty_store(Emergencies := \<lparr>rows = [seed_row morning 0 1 head_part], nextKey = 2\<rparr>)) =
     (Inr (), empty_store(Emergencies := \<lparr>rows = [seed_row evening 0 2 head_part], nextKey = 3\<rparr>))
   \<and> nextKey (empty_store Emergencies) + 2 * int (length [head_part]) \<le> generator_limit + 1
   \<and> seeded_rows morning 0 (nextKey (empty_store Emergencies)) [head_part]
        = [seed_row morning 0 1 head_part]
   \<and> seeded_rows evening 0 (nextKey (empty_store Emergencies) + int (length [head_part])) [head_part]
        = [seed_row evening 0 2 head_part]"
proof -
  have room: "nextKey (empty_store Emergencies) + 2 * int (length [head_part]) \<le> generator_limit + 1"
    by (simp add: empty_store_def empty_table_def generator_limit_def)
  show ?thesis
    using reset_head_once reset_head_twice room
      resetAll_twice [OF reset_head_once reset_head_twice room]
    by (simp add: empty_store_def empty_table_def)
qed

text \<open>
  C4 as stated does not hold: from the empty store and a document with one body part, the
  first reset stores it under id 1 with the clock readings of the first run, the second
  under id 2 with those of the second run, and the two stores differ.
\<close>

theorem resetAll_not_idempotent_counterexample:
  "snd (resetAndReloadData (Inr [head_part]) morning empty_store)
     = empty_store(Emergencies := \<lparr>rows = [seed_row morning 0 1 head_part], nextKey = 2\<rparr>)
   \<and> snd (resetAndReloadData (Inr [head_part]) evening
            (snd (resetAndReloadData (Inr [head_part]) morning empty_store)))
     = empty_store(Emergencies := \<lparr>rows = [seed_row evening 0 2 head_part], nextKey = 3\<rparr>)
   \<and> snd (resetAndReloadData (Inr [head_part]) evening
            (snd (resetAndReloadData (Inr [head_part]) morning empty_store)))
     \<noteq> snd (resetAndReloadData (Inr [head_part]) morning empty_store)
   \<and> fst (seed_row morning 0 1 head_part) = KNum 1 \<and> fst (seed_row evening 0 2 head_part) = KNum 2
   \<and> fld (snd (seed_row morning 0 1 head_part)) ''createdAt'' = Str ''2024-01-01T08:00:00.002Z''
   \<and> fld (snd (seed_row evening 0 2 head_part)) ''createdAt'' = Str ''2024-01-01T20:00:00.002Z''"
proof -
  have ne: "empty_store(Emergencies := \<lparr>rows = [seed_row evening 0 2 head_part], nextKey = 3\<rparr>)
          \<noteq> empty_store(Emergencies := \<lparr>rows = [seed_row morning 0 1 head_part], nextKey = 2\<rparr>)"
  proof
    assume "empty_store(Emergencies := \<lparr>rows = [seed_row evening 0 2 head_part], nextKey = 3\<rparr>)
          = empty_store(Emergencies := \<lparr>rows = [seed_row morning 0 1 head_part], nextKey = 2\<rparr>)"
    then have "nextKey ((empty_store(Emergencies := \<lparr>rows = [seed_row evening 0 2 head_part], nextKey = 3\<rparr>)) Emergencies)
             = nextKey ((empty_store(Emergencies := \<lparr>rows = [seed_row morning 0 1 head_part], nextKey = 2\<rparr>)) Emergencies)"
      by (rule arg_cong)
    then show False by simp
  qed
  show ?thesis
    using ne by (simp add: reset_head_once reset_head_twice)
        (simp add: seed_row_def fld_def emergencyDataItem_def head_part_def morning_def evening_def)
qed
section \<open>Image ids\<close>

text \<open>
  C6, as the code has it. The id of an upload is the specification's
  \<^verbatim>\<open>{type}_{ownerId}_{timestampMillis}_{randomSuffix}\<close> behind the prefix
  \<^verbatim>\<open>user_upload_\<close>, which is what \<^verbatim>\<open>isUserUploadedImage\<close> recognises. Two ids for the
  same type and owner are equal exactly when both the millisecond timestamp and the
  random suffix are equal.
\<close>

theorem image_id_format_and_collisions:
  "generateImageId type owner ms random = ''user_upload_'' @ spec_image_id type owner ms random
   \<and> isUserUploadedImage (Str (generateImageId type owner ms random)) = Inr True
   \<and> (generateImageId type owner ms1 random1 = generateImageId type owner ms2 random2)
       = (ms1 = ms2 \<and> random1 = random2)"
proof -
  have form: "generateImageId type owner ms random = ''user_upload_'' @ spec_image_id type owner ms random"
    by (simp add: generateImageId_def spec_image_id_def)
  have "starts_with ''user_upload_'' (''user_upload_'' @ spec_image_id type owner ms random)"
    by (rule starts_with_append)
  then have rec: "isUserUploadedImage (Str (generateImageId type owner ms random)) = Inr True"
    by (simp add: form isUserUploadedImage_def truthy_def)
  have inj: "ms1 = ms2 \<and> random1 = random2"
    if "generateImageId type owner ms1 random1 = generateImageId type owner ms2 random2"
  proof -
    from that have "show_nat ms1 @ CHR ''_'' # random1 = show_nat ms2 @ CHR ''_'' # random2"
      by (simp add: generateImageId_def)
    then have "show_nat ms1 = show_nat ms2 \<and> random1 = random2"
      by (rule split_at_separator[OF underscore_not_in_show_nat underscore_not_in_show_nat])
    then show ?thesis using show_nat_inj by blast
  qed
  have "(generateImageId type owner ms1 random1 = generateImageId type owner ms2 random2)
       = (ms1 = ms2 \<and> random1 = random2)"
    using inj by blast
  with form rec show ?thesis by blast
qed

text \<open>
  C6 as stated does not hold: the generated id is not of the stated form (it has the
  prefix), and two uploads for one owner that read the same millisecond and draw the same
  suffix get the same id, so the second upload replaces the first one's image.
\<close>

theorem image_id_counterexample:
  "generateImageId (Str ''food'') (Num 1) 5 ''abc'' = ''user_upload_food_1_5_abc''
   \<and> spec_image_id (Str ''food'') (Num 1) 5 ''abc'' = ''food_1_5_abc''
   \<and> generateImageId (Str ''food'') (Num 1) 5 ''abc'' \<noteq> spec_image_id (Str ''food'') (Num 1) 5 ''abc''
   \<and> map_sum id imageId (fst first_upload) = Inr ''user_upload_food_1_5_abc''
   \<and> map_sum id imageId (fst second_upload) = Inr ''user_upload_food_1_5_abc''
   \<and> getImageSource (Str ''user_upload_food_1_5_abc'') (snd first_upload) = Inr (Str ''data:a.png'')
   \<and> getImageSource (Str ''user_upload_food_1_5_abc'') (snd second_upload) = Inr (Str ''data:b.png'')"
  by (simp add: generateImageId_food spec_image_id_food first_upload_eq second_upload_eq
        getImageSource_def isUserUploadedImage_def truthy_def starts_with_def getUserImage_def
        initDB_def)

end
